theory Spec2Isabelle
  imports Main "HOL-Library.Sublist"
begin

section \<open>Python helpers used by \<^verbatim>\<open>fill_playlist.py\<close>\<close>

text \<open>
  A Python \<^verbatim>\<open>str\<close> is modelled as a \<^typ>\<open>string\<close>: every \<^typ>\<open>char\<close> stands for one
  code point below 256. \<^verbatim>\<open>str.strip()\<close> without argument removes the characters for
  which \<^verbatim>\<open>str.isspace\<close> holds; below 256 these are TAB, LF, VT, FF, CR, the
  separators FS, GS, RS, US, the space, NEL (0x85) and the no-break space (0xA0).
\<close>

definition py_isspace :: "char \<Rightarrow> bool" where
  "py_isspace c \<longleftrightarrow>
     c \<in> set [CHR 0x09, CHR 0x0A, CHR 0x0B, CHR 0x0C, CHR 0x0D,
              CHR 0x1C, CHR 0x1D, CHR 0x1E, CHR 0x1F, CHR 0x20, CHR 0x85, CHR 0xA0]"

definition py_lstrip :: "string \<Rightarrow> string" where
  "py_lstrip s = dropWhile py_isspace s"

definition py_rstrip :: "string \<Rightarrow> string" where
  "py_rstrip s = rev (dropWhile py_isspace (rev s))"

definition py_strip :: "string \<Rightarrow> string" where
  "py_strip s = py_rstrip (py_lstrip s)"

definition startswith :: "string \<Rightarrow> string \<Rightarrow> bool" where
  "startswith s p \<longleftrightarrow> take (length p) s = p"

text \<open>
  \<^verbatim>\<open>s.split(sep)\<close> for a one-character separator: the segments between the
  occurrences of the separator, empty segments kept; the result is never empty.
\<close>

fun py_split :: "char \<Rightarrow> string \<Rightarrow> string list" where
  "py_split sep [] = [[]]"
| "py_split sep (c # cs) =
     (if c = sep then [] # py_split sep cs
      else (case py_split sep cs of
              [] \<Rightarrow> [[c]]
            | p # ps \<Rightarrow> (c # p) # ps))"

text \<open>\<^verbatim>\<open>str(n)\<close> for a non-negative integer: its decimal digits.\<close>

definition py_digit :: "nat \<Rightarrow> char" where
  "py_digit d = ''0123456789'' ! d"

fun py_str :: "nat \<Rightarrow> string" where
  "py_str n =
     (if n < 10 then [py_digit n]
      else py_str (n div 10) @ [py_digit (n mod 10)])"

declare py_str.simps [simp del]

text \<open>\<^verbatim>\<open>xs[a:b]\<close> for indices \<open>0 \<le> a \<le> b\<close>.\<close>

definition py_slice :: "'a list \<Rightarrow> nat \<Rightarrow> nat \<Rightarrow> 'a list" where
  "py_slice xs a b = take (b - a) (drop a xs)"

text \<open>
  \<^verbatim>\<open>range(start, stop, step)\<close> for non-negative arguments. Python raises
  \<^verbatim>\<open>ValueError\<close> for a zero step; the only step the program uses is the
  constant 100, and the model yields the empty list for a zero step.
\<close>

function py_range :: "nat \<Rightarrow> nat \<Rightarrow> nat \<Rightarrow> nat list" where
  "py_range start stop step =
     (if 0 < step \<and> start < stop then start # py_range (start + step) stop step else [])"
  by pat_completeness auto
termination
  by (relation "measure (\<lambda>(start, stop, step). stop - start)") auto

declare py_range.simps [simp del]


section \<open>\<^verbatim>\<open>read_track_ids\<close>\<close>

datatype io_error = OSError

text \<open>
  The file is given by the lines that iterating over the opened file yields, in
  order, each with its line terminator if it has one; \<open>None\<close> is a path that
  cannot be opened, where \<^verbatim>\<open>open\<close> raises.
\<close>

definition track_id_of_line :: "string \<Rightarrow> string" where
  "track_id_of_line line =
     (if CHR '':'' \<in> set line then last (py_split (CHR '':'') line) else line)"

fun read_lines :: "string list \<Rightarrow> string list \<Rightarrow> string list" where
  "read_lines [] ids = ids"
| "read_lines (raw # rest) ids =
     (let line = py_strip raw in
      if line = [] \<or> startswith line ''#'' then read_lines rest ids
      else
        let track_id = track_id_of_line line in
        if track_id \<noteq> [] then read_lines rest (ids @ [track_id])
        else read_lines rest ids)"

definition read_track_ids :: "string list option \<Rightarrow> io_error + string list" where
  "read_track_ids file =
     (case file of
        None \<Rightarrow> Inl OSError
      | Some lines \<Rightarrow> Inr (read_lines lines []))"


section \<open>The remote client\<close>

text \<open>
  A page of \<^verbatim>\<open>playlist_items\<close> is a dictionary
  \<^verbatim>\<open>{"items": [{"track": {"id": ...}}, ...], "total": ...}\<close>. A key that is
  missing and a key whose value is \<^verbatim>\<open>None\<close> give the same result of
  \<^verbatim>\<open>dict.get\<close>, so both are \<open>None\<close> here: \<open>track_get_id\<close> is
  \<^verbatim>\<open>track.get("id")\<close> and \<open>item_get_track\<close> is \<^verbatim>\<open>item.get("track")\<close>.
  A track dictionary without any key (the only falsy dictionary) is
  \<open>Track None\<close>. In a response, \<open>items = None\<close> is a dictionary without the key
  \<^verbatim>\<open>"items"\<close>, for which \<^verbatim>\<open>response.get("items", [])\<close> is the empty list; the
  value of a present key is a list of entries, as the client's contract has it.
\<close>

datatype track = Track (track_get_id: "string option")

datatype item = Item (item_get_track: "track option")

record response =
  items :: "item list option"
  total :: "int option"

text \<open>An exception raised by the remote client; the program catches none.\<close>

datatype error = SpotifyException string

text \<open>
  The client object \<^verbatim>\<open>sp\<close>: its two methods, over the state \<open>'s\<close> of the
  object and of the remote service behind it. A method returns the response, or
  the exception it raises, and the new state.
\<close>

record 's spotify =
  playlist_items :: "'s \<Rightarrow> string \<Rightarrow> int \<Rightarrow> int \<Rightarrow> string \<Rightarrow> (error + response) \<times> 's"
  playlist_add_items :: "'s \<Rightarrow> string \<Rightarrow> string list \<Rightarrow> (error + unit) \<times> 's"

text \<open>
  What a run does to the outside: the calls it issues to the client and the lines
  it prints, in order.
\<close>

datatype event =
    PlaylistItems string int int string
  | PlaylistAddItems string "string list"
  | Print string

record 's world =
  client :: 's
  trace :: "event list"

definition emit :: "event \<Rightarrow> 's world \<Rightarrow> 's world" where
  "emit ev w = w\<lparr>trace := trace w @ [ev]\<rparr>"

definition call_playlist_items ::
  "'s spotify \<Rightarrow> string \<Rightarrow> int \<Rightarrow> int \<Rightarrow> string \<Rightarrow> 's world \<Rightarrow> (error + response) \<times> 's world" where
  "call_playlist_items sp playlist_id offset limit flds w =
     (case playlist_items sp (client w) playlist_id offset limit flds of
        (r, s') \<Rightarrow> (r, emit (PlaylistItems playlist_id offset limit flds) (w\<lparr>client := s'\<rparr>)))"

definition call_playlist_add_items ::
  "'s spotify \<Rightarrow> string \<Rightarrow> string list \<Rightarrow> 's world \<Rightarrow> (error + unit) \<times> 's world" where
  "call_playlist_add_items sp playlist_id batch w =
     (case playlist_add_items sp (client w) playlist_id batch of
        (r, s') \<Rightarrow> (r, emit (PlaylistAddItems playlist_id batch) (w\<lparr>client := s'\<rparr>)))"


section \<open>\<^verbatim>\<open>get_existing_track_ids\<close>\<close>

definition response_get_items :: "response \<Rightarrow> item list" where
  "response_get_items response = (case items response of None \<Rightarrow> [] | Some its \<Rightarrow> its)"

text \<open>
  The inner \<^verbatim>\<open>for item in items\<close>: an identifier is added when the track is
  truthy and its identifier is truthy, that is, a non-empty string.
\<close>

fun add_items :: "item list \<Rightarrow> string set \<Rightarrow> string set" where
  "add_items [] existing = existing"
| "add_items (item # rest) existing =
     (case item_get_track item of
        None \<Rightarrow> add_items rest existing
      | Some track \<Rightarrow>
          (case track_get_id track of
             None \<Rightarrow> add_items rest existing
           | Some tid \<Rightarrow>
               if tid \<noteq> [] then add_items rest (insert tid existing)
               else add_items rest existing))"

definition page_fields :: string where
  "page_fields = ''items.track.id,total''"

text \<open>
  The \<^verbatim>\<open>while True\<close> loop, from the state at the head of an iteration. It has
  no bound of its own: \<open>None\<close> is a run that never leaves the loop.
\<close>

partial_function (option) fetch_pages ::
  "'s spotify \<Rightarrow> string \<Rightarrow> int \<Rightarrow> int \<Rightarrow> string set \<Rightarrow> 's world
     \<Rightarrow> ((error + string set) \<times> 's world) option" where
  "fetch_pages sp playlist_id offset limit existing w =
     (case call_playlist_items sp playlist_id offset limit page_fields w of
        (Inl e, w') \<Rightarrow> Some (Inl e, w')
      | (Inr response, w') \<Rightarrow>
          (let its = response_get_items response;
               existing' = add_items its existing;
               offset' = offset + limit
           in if int (length its) < limit then Some (Inr existing', w')
              else fetch_pages sp playlist_id offset' limit existing' w'))"

declare fetch_pages.simps [code]

definition get_existing_track_ids ::
  "'s spotify \<Rightarrow> string \<Rightarrow> 's world \<Rightarrow> ((error + string set) \<times> 's world) option" where
  "get_existing_track_ids sp playlist_id w = fetch_pages sp playlist_id 0 100 {} w"


section \<open>\<^verbatim>\<open>add_tracks_to_playlist\<close>\<close>

text \<open>The \<^verbatim>\<open>for start in range(...)\<close> loop over the remaining start indices.\<close>

fun add_batches ::
  "'s spotify \<Rightarrow> string \<Rightarrow> string list \<Rightarrow> nat \<Rightarrow> nat list \<Rightarrow> 's world
     \<Rightarrow> (error + unit) \<times> 's world" where
  "add_batches sp playlist_id to_add batch_size [] w = (Inr (), w)"
| "add_batches sp playlist_id to_add batch_size (start # starts) w =
     (let batch = py_slice to_add start (start + batch_size) in
      case call_playlist_add_items sp playlist_id batch w of
        (Inl e, w') \<Rightarrow> (Inl e, w')
      | (Inr u, w') \<Rightarrow>
          add_batches sp playlist_id to_add batch_size starts
            (emit (Print (''Added '' @ py_str (length batch) @ '' tracks.'')) w'))"

definition add_tracks_to_playlist ::
  "'s spotify \<Rightarrow> string \<Rightarrow> string list \<Rightarrow> 's world \<Rightarrow> ((error + unit) \<times> 's world) option" where
  "add_tracks_to_playlist sp playlist_id track_ids w =
     (case get_existing_track_ids sp playlist_id w of
        None \<Rightarrow> None
      | Some (Inl e, w1) \<Rightarrow> Some (Inl e, w1)
      | Some (Inr existing, w1) \<Rightarrow>
          (let to_add = filter (\<lambda>tid. tid \<notin> existing) track_ids in
           if to_add = [] then
             Some (Inr (),
               emit (Print ''No new tracks to add; playlist already contains all provided songs.'') w1)
           else
             let w2 = emit (Print (''Adding '' @ py_str (length to_add)
                        @ '' new tracks to playlist '' @ playlist_id @ ''...'')) w1;
                 batch_size = 100
             in (case add_batches sp playlist_id to_add batch_size
                        (py_range 0 (length to_add) batch_size) w2 of
                   (Inl e, w3) \<Rightarrow> Some (Inl e, w3)
                 | (Inr u, w3) \<Rightarrow>
                     Some (Inr (), emit (Print ''All tracks added successfully.'') w3))))"


section \<open>The stand-in client of \<^verbatim>\<open>test_fill_playlist.py\<close>\<close>

record dummy_state =
  playlist_responses :: "response list"
  playlist_items_calls :: nat
  added_batches :: "string list list"

definition dummy_init :: "response list \<Rightarrow> dummy_state" where
  "dummy_init rs = \<lparr>playlist_responses = rs, playlist_items_calls = 0, added_batches = []\<rparr>"

definition dummy_playlist_items ::
  "dummy_state \<Rightarrow> string \<Rightarrow> int \<Rightarrow> int \<Rightarrow> string \<Rightarrow> (error + response) \<times> dummy_state" where
  "dummy_playlist_items s playlist_id offset limit flds =
     (let response =
            (if playlist_items_calls s < length (playlist_responses s)
             then playlist_responses s ! playlist_items_calls s
             else \<lparr>items = Some [], total = None\<rparr>)
      in (Inr response, s\<lparr>playlist_items_calls := playlist_items_calls s + 1\<rparr>))"

definition dummy_playlist_add_items ::
  "dummy_state \<Rightarrow> string \<Rightarrow> string list \<Rightarrow> (error + unit) \<times> dummy_state" where
  "dummy_playlist_add_items s playlist_id its =
     (Inr (), s\<lparr>added_batches := added_batches s @ [its]\<rparr>)"

definition DummySpotifyClient :: "dummy_state spotify" where
  "DummySpotifyClient =
     \<lparr>playlist_items = dummy_playlist_items, playlist_add_items = dummy_playlist_add_items\<rparr>"


section \<open>Reading a trace\<close>

fun add_calls :: "event list \<Rightarrow> string list list" where
  "add_calls [] = []"
| "add_calls (PlaylistAddItems p b # evs) = b # add_calls evs"
| "add_calls (ev # evs) = add_calls evs"

fun page_calls :: "event list \<Rightarrow> event list" where
  "page_calls [] = []"
| "page_calls (PlaylistItems p off lim f # evs) = PlaylistItems p off lim f # page_calls evs"
| "page_calls (ev # evs) = page_calls evs"

text \<open>
  The identifier of a page entry that has a track reference and a non-null
  identifier; \<open>present_ids\<close> collects them over a list of entries, and
  \<open>item_ids\<close> keeps the non-empty ones.
\<close>

fun entry_id :: "item \<Rightarrow> string option" where
  "entry_id (Item None) = None"
| "entry_id (Item (Some (Track tid))) = tid"

definition present_ids :: "item list \<Rightarrow> string set" where
  "present_ids its = set (List.map_filter entry_id its)"

definition item_ids :: "item list \<Rightarrow> string set" where
  "item_ids its = present_ids its - {[]}"

text \<open>Consecutive chunks of at most \<open>n\<close> elements.\<close>

fun chunks :: "nat \<Rightarrow> 'a list \<Rightarrow> 'a list list" where
  "chunks n xs =
     (if n = 0 \<or> xs = [] then [] else take n xs # chunks n (drop n xs))"

declare chunks.simps [simp del]

text \<open>What the batch loop issues and prints for one batch that succeeds.\<close>

definition batch_events :: "string \<Rightarrow> string list \<Rightarrow> event list" where
  "batch_events playlist_id batch =
     [PlaylistAddItems playlist_id batch,
      Print (''Added '' @ py_str (length batch) @ '' tracks.'')]"

definition adding_line :: "string \<Rightarrow> nat \<Rightarrow> event" where
  "adding_line playlist_id n =
     Print (''Adding '' @ py_str n @ '' new tracks to playlist '' @ playlist_id @ ''...'')"

text \<open>The events of a run after those of an earlier point of the same run.\<close>

definition events_since :: "'s world \<Rightarrow> 's world \<Rightarrow> event list" where
  "events_since w1 w2 = drop (length (trace w1)) (trace w2)"


section \<open>The normalizer as the specification words it\<close>

text \<open>
  A line is retained when it is not empty after trimming and its first
  non-whitespace character is not \<open>#\<close>. The identifier of a retained line is the
  segment after its last colon when the trimmed line has a colon, and the
  trimmed line otherwise. Empty identifiers are dropped.
\<close>

definition first_nonspace :: "string \<Rightarrow> char option" where
  "first_nonspace s = List.find (\<lambda>c. \<not> py_isspace c) s"

definition after_last_colon :: "string \<Rightarrow> string" where
  "after_last_colon s = rev (takeWhile (\<lambda>c. c \<noteq> CHR '':'') (rev s))"

definition spec_retained :: "string \<Rightarrow> bool" where
  "spec_retained raw \<longleftrightarrow> py_strip raw \<noteq> [] \<and> first_nonspace raw \<noteq> Some (CHR ''#'')"

definition spec_identifier :: "string \<Rightarrow> string" where
  "spec_identifier raw =
     (let line = py_strip raw in
      if CHR '':'' \<in> set line then after_last_colon line else line)"

definition spec_track_ids :: "string list \<Rightarrow> string list" where
  "spec_track_ids lines =
     filter (\<lambda>tid. tid \<noteq> []) (map spec_identifier (filter spec_retained lines))"


section \<open>The data of the repository's tests\<close>

text \<open>
  \<^verbatim>\<open>test_get_existing_track_ids_paginates_results\<close>: a first page of 100
  entries \<^verbatim>\<open>id1\<close> to \<^verbatim>\<open>id100\<close> and a second page with \<^verbatim>\<open>id101\<close>.
\<close>

definition first_page_items :: "item list" where
  "first_page_items = map (\<lambda>n. Item (Some (Track (Some (''id'' @ py_str n))))) [1..<101]"

definition second_page_items :: "item list" where
  "second_page_items = [Item (Some (Track (Some ''id101'')))]"

definition paginated_responses :: "response list" where
  "paginated_responses =
     [\<lparr>items = Some first_page_items, total = None\<rparr>,
      \<lparr>items = Some second_page_items, total = None\<rparr>]"

text \<open>
  \<^verbatim>\<open>test_add_tracks_skips_existing_and_batches\<close>: the playlist holds
  \<^verbatim>\<open>id1\<close>, and the input repeats \<^verbatim>\<open>id2\<close>.
\<close>

definition existing_responses :: "response list" where
  "existing_responses = [\<lparr>items = Some [Item (Some (Track (Some ''id1'')))], total = None\<rparr>]"

definition test_track_ids :: "string list" where
  "test_track_ids = [''id1'', ''id2'', ''id2'', ''id3'', ''id4'', ''id5'']"


section \<open>An invariant of the pagination loop\<close>

text \<open>
  What every result \<open>y\<close> of the loop, entered with the set \<open>E\<close> in the world \<open>w\<close>,
  satisfies: the loop has added page requests and nothing else to the trace, at
  least one, and a returned set has no empty string if \<open>E\<close> had none.
\<close>

definition fetch_inv :: "string set \<Rightarrow> 's world \<Rightarrow> (error + string set) \<times> 's world \<Rightarrow> bool" where
  "fetch_inv E w y \<longleftrightarrow>
     (\<exists>evs. trace (snd y) = trace w @ evs \<and> add_calls evs = [] \<and> page_calls evs = evs \<and> evs \<noteq> [])
     \<and> (case fst y of Inl e \<Rightarrow> True | Inr E' \<Rightarrow> [] \<notin> E \<longrightarrow> [] \<notin> E')"


section \<open>Properties of the normalizer\<close>

lemma py_split_ne: "py_split sep s \<noteq> []"
  by (induction s) (auto split: list.splits)

lemma py_split_no_sep: "sep \<notin> set s \<Longrightarrow> py_split sep s = [s]"
  by (induction s) auto

lemma py_split_has_sep: "sep \<in> set s \<Longrightarrow> \<exists>p q r. py_split sep s = p # q # r"
proof (induction s)
  case Nil
  then show ?case by simp
next
  case (Cons c cs)
  show ?case
  proof (cases "c = sep")
    case True
    obtain p r where "py_split sep cs = p # r"
      using py_split_ne [of sep cs] by (cases "py_split sep cs") auto
    with True show ?thesis by simp
  next
    case False
    with Cons.prems have "sep \<in> set cs" by auto
    then obtain p q r where "py_split sep cs = p # q # r"
      using Cons.IH by blast
    with False show ?thesis by simp
  qed
qed

lemma last_py_split: "last (py_split sep s) = rev (takeWhile (\<lambda>c. c \<noteq> sep) (rev s))"
proof (induction s)
  case Nil
  then show ?case by simp
next
  case (Cons c cs)
  show ?case
  proof (cases "sep \<in> set cs")
    case True
    then obtain p q r where pq: "py_split sep cs = p # q # r"
      using py_split_has_sep by blast
    from True have ex: "\<not> (\<forall>x\<in>set (rev cs). x \<noteq> sep)" by auto
    have "last (py_split sep (c # cs)) = last (py_split sep cs)"
      using pq by simp
    also have "\<dots> = rev (takeWhile (\<lambda>c. c \<noteq> sep) (rev cs))"
      by (rule Cons.IH)
    also have "\<dots> = rev (takeWhile (\<lambda>c. c \<noteq> sep) (rev (c # cs)))"
      using True by (simp add: takeWhile_append1)
    finally show ?thesis .
  next
    case False
    then have sp: "py_split sep cs = [cs]" by (rule py_split_no_sep)
    have tw: "takeWhile (\<lambda>c. c \<noteq> sep) (rev cs @ [c]) = rev cs @ takeWhile (\<lambda>c. c \<noteq> sep) [c]"
      using False by (intro takeWhile_append2) auto
    show ?thesis
      using sp by (simp add: tw)
  qed
qed

lemma first_nonspace_dropWhile:
  "first_nonspace raw = (case dropWhile py_isspace raw of [] \<Rightarrow> None | c # s \<Rightarrow> Some c)"
  by (induction raw) (auto simp: first_nonspace_def)

lemma startswith_hash:
  "startswith (py_strip raw) ''#'' \<longleftrightarrow> first_nonspace raw = Some (CHR ''#'')"
proof (cases "dropWhile py_isspace raw")
  case Nil
  have "py_strip raw = []"
    unfolding py_strip_def py_lstrip_def py_rstrip_def Nil by simp
  moreover have "first_nonspace raw = None"
    unfolding first_nonspace_dropWhile Nil by simp
  ultimately show ?thesis
    by (simp add: startswith_def)
next
  case (Cons c s)
  then have "\<not> py_isspace c"
    by (metis hd_dropWhile list.sel(1) list.distinct(1))
  then have "py_strip raw = c # rev (dropWhile py_isspace (rev s))"
    unfolding py_strip_def py_lstrip_def py_rstrip_def Cons by (simp add: dropWhile_append3)
  moreover have "first_nonspace raw = Some c"
    unfolding first_nonspace_dropWhile Cons by simp
  ultimately show ?thesis
    by (simp add: startswith_def)
qed

lemma read_lines_spec: "read_lines lines ids = ids @ spec_track_ids lines"
proof (induction lines arbitrary: ids)
  case Nil
  then show ?case by (simp add: spec_track_ids_def)
next
  case (Cons raw rest)
  show ?case
    by (simp add: Cons.IH spec_track_ids_def spec_retained_def spec_identifier_def
        track_id_of_line_def after_last_colon_def last_py_split startswith_hash Let_def)
qed

text \<open>
  Claim C4. For every readable input file, \<^verbatim>\<open>read_track_ids\<close> returns exactly the
  ordered sequence obtained by trimming each line, skipping the lines that are
  empty after trimming or whose first non-whitespace character is \<open>#\<close>, taking
  for each retained line the segment after the last colon if the line has a
  colon and the trimmed line otherwise, and discarding empty identifiers.
\<close>

theorem read_track_ids_refines_spec:
  "read_track_ids (Some lines) = Inr (spec_track_ids lines)"
  by (simp add: read_track_ids_def read_lines_spec)

text \<open>The file of the repository's own test of the normalizer.\<close>

theorem read_track_ids_refines_spec_witness:
  "read_track_ids (Some
     [''\<newline>'',
      ''            # This is a comment line\<newline>'',
      ''\<newline>'',
      ''            6rqhFgbbKwnb9MLmUQDhG6\<newline>'',
      ''            spotify:track:60nZcImufyMA1MKQY3dcCH\<newline>'',
      ''            invalid:format:should:just:take:last\<newline>'',
      ''            ''])
   = Inr [''6rqhFgbbKwnb9MLmUQDhG6'', ''60nZcImufyMA1MKQY3dcCH'', ''last'']"
  using read_track_ids_refines_spec [of
     "[''\<newline>'',
      ''            # This is a comment line\<newline>'',
      ''\<newline>'',
      ''            6rqhFgbbKwnb9MLmUQDhG6\<newline>'',
      ''            spotify:track:60nZcImufyMA1MKQY3dcCH\<newline>'',
      ''            invalid:format:should:just:take:last\<newline>'',
      ''            '']"]
  by (simp add: spec_track_ids_def spec_retained_def spec_identifier_def first_nonspace_def
      after_last_colon_def py_strip_def py_lstrip_def py_rstrip_def py_isspace_def)


section \<open>Properties of the snapshot fetch\<close>

lemma add_items_eq: "add_items its E = E \<union> item_ids its"
proof (induction its arbitrary: E)
  case Nil
  then show ?case by (simp add: item_ids_def present_ids_def map_filter_simps)
next
  case (Cons it its)
  show ?case
    by (cases it rule: entry_id.cases)
      (auto simp: Cons.IH item_ids_def present_ids_def map_filter_simps
        split: option.splits if_splits)
qed

lemma fetch_pages_last:
  assumes "playlist_items sp s pid off lim page_fields = (Inr r, s')"
    and "int (length (response_get_items r)) < lim"
  shows "fetch_pages sp pid off lim E \<lparr>client = s, trace = tr\<rparr> =
         Some (Inr (E \<union> item_ids (response_get_items r)),
               \<lparr>client = s', trace = tr @ [PlaylistItems pid off lim page_fields]\<rparr>)"
  using assms
  by (subst fetch_pages.simps) (simp add: call_playlist_items_def emit_def add_items_eq)

lemma fetch_pages_more:
  assumes "playlist_items sp s pid off lim page_fields = (Inr r, s')"
    and "\<not> int (length (response_get_items r)) < lim"
  shows "fetch_pages sp pid off lim E \<lparr>client = s, trace = tr\<rparr> =
         fetch_pages sp pid (off + lim) lim (E \<union> item_ids (response_get_items r))
               \<lparr>client = s', trace = tr @ [PlaylistItems pid off lim page_fields]\<rparr>"
  using assms
  by (subst fetch_pages.simps) (simp add: call_playlist_items_def emit_def add_items_eq)

lemma fetch_pages_error:
  assumes "playlist_items sp s pid off lim page_fields = (Inl e, s')"
  shows "fetch_pages sp pid off lim E \<lparr>client = s, trace = tr\<rparr> =
         Some (Inl e, \<lparr>client = s', trace = tr @ [PlaylistItems pid off lim page_fields]\<rparr>)"
  using assms
  by (subst fetch_pages.simps) (simp add: call_playlist_items_def emit_def)

lemma fetch_pages_run:
  assumes "\<forall>k\<le>n. playlist_items sp (st k) pid (off + int k * lim) lim page_fields
                   = (Inr (resp k), st (Suc k))"
    and "\<forall>k<n. \<not> int (length (response_get_items (resp k))) < lim"
    and "int (length (response_get_items (resp n))) < lim"
  shows "fetch_pages sp pid off lim E \<lparr>client = st 0, trace = tr\<rparr> =
         Some (Inr (E \<union> (\<Union>k\<le>n. item_ids (response_get_items (resp k)))),
               \<lparr>client = st (Suc n),
                trace = tr @ map (\<lambda>k. PlaylistItems pid (off + int k * lim) lim page_fields) [0..<Suc n]\<rparr>)"
  using assms
proof (induction n arbitrary: st resp off E tr)
  case 0
  then show ?case
    using fetch_pages_last [of sp "st 0" pid off lim "resp 0" "st (Suc 0)" E tr] by simp
next
  case (Suc n)
  have first: "playlist_items sp (st 0) pid off lim page_fields = (Inr (resp 0), st (Suc 0))"
    using Suc.prems(1) by (metis le0 mult_zero_left of_nat_0 add.right_neutral)
  have full: "\<not> int (length (response_get_items (resp 0))) < lim"
    using Suc.prems(2) by blast
  have step: "fetch_pages sp pid off lim E \<lparr>client = st 0, trace = tr\<rparr> =
         fetch_pages sp pid (off + lim) lim (E \<union> item_ids (response_get_items (resp 0)))
               \<lparr>client = st (Suc 0), trace = tr @ [PlaylistItems pid off lim page_fields]\<rparr>"
    by (rule fetch_pages_more [OF first full])
  have h1: "\<forall>k\<le>n. playlist_items sp ((st \<circ> Suc) k) pid ((off + lim) + int k * lim) lim page_fields
                   = (Inr ((resp \<circ> Suc) k), (st \<circ> Suc) (Suc k))"
  proof (intro allI impI)
    fix k assume "k \<le> n"
    then have "Suc k \<le> Suc n" by simp
    then have A: "playlist_items sp (st (Suc k)) pid (off + int (Suc k) * lim) lim page_fields
                   = (Inr (resp (Suc k)), st (Suc (Suc k)))"
      using Suc.prems(1) by blast
    have B: "off + int (Suc k) * lim = (off + lim) + int k * lim"
      by (simp add: algebra_simps)
    show "playlist_items sp ((st \<circ> Suc) k) pid ((off + lim) + int k * lim) lim page_fields
                   = (Inr ((resp \<circ> Suc) k), (st \<circ> Suc) (Suc k))"
      unfolding comp_def using A unfolding B .
  qed
  have h2: "\<forall>k<n. \<not> int (length (response_get_items ((resp \<circ> Suc) k))) < lim"
    using Suc.prems(2) by simp
  have h3: "int (length (response_get_items ((resp \<circ> Suc) n))) < lim"
    using Suc.prems(3) by simp
  have un: "(\<Union>k\<le>Suc n. item_ids (response_get_items (resp k))) =
        item_ids (response_get_items (resp 0)) \<union> (\<Union>k\<le>n. item_ids (response_get_items (resp (Suc k))))"
    (is "?L = ?R")
  proof
    show "?L \<subseteq> ?R"
    proof
      fix x assume "x \<in> ?L"
      then obtain k where k: "k \<le> Suc n" "x \<in> item_ids (response_get_items (resp k))" by auto
      show "x \<in> ?R"
      proof (cases k)
        case 0
        with k show ?thesis by simp
      next
        case (Suc j)
        with k have "j \<le> n" "x \<in> item_ids (response_get_items (resp (Suc j)))" by auto
        then show ?thesis by blast
      qed
    qed
    show "?R \<subseteq> ?L" by auto
  qed
  have tr: "map (\<lambda>k. PlaylistItems pid (off + int k * lim) lim page_fields) [0..<Suc (Suc n)] =
        PlaylistItems pid off lim page_fields #
        map (\<lambda>k. PlaylistItems pid ((off + lim) + int k * lim) lim page_fields) [0..<Suc n]"
  proof -
    have "[0..<Suc (Suc n)] = 0 # map Suc [0..<Suc n]"
      by (simp only: upt_conv_Cons [of 0 "Suc (Suc n)"] map_Suc_upt)
    then show ?thesis
      by (simp add: algebra_simps comp_def del: upt_Suc)
  qed
  show ?case
    unfolding step
    using Suc.IH [of "st \<circ> Suc" "off + lim" "resp \<circ> Suc", OF h1 h2 h3,
        of "E \<union> item_ids (response_get_items (resp 0))" "tr @ [PlaylistItems pid off lim page_fields]"]
    by (simp only: un tr comp_def) ((simp add: Un_assoc)?)
qed

lemma add_calls_append: "add_calls (xs @ ys) = add_calls xs @ add_calls ys"
  by (induction xs rule: add_calls.induct) auto

lemma page_calls_append: "page_calls (xs @ ys) = page_calls xs @ page_calls ys"
  by (induction xs rule: page_calls.induct) auto

lemma empty_not_in_add_items: "[] \<notin> E \<Longrightarrow> [] \<notin> add_items its E"
  by (simp add: add_items_eq item_ids_def)

lemma fetch_inv_error:
  "trace w1 = trace w @ [PlaylistItems pid off lim f] \<Longrightarrow> fetch_inv E w (Inl e, w1)"
  by (simp add: fetch_inv_def)

lemma fetch_inv_return:
  "trace w1 = trace w @ [PlaylistItems pid off lim f] \<Longrightarrow>
     fetch_inv E w (Inr (add_items its E), w1)"
  by (simp add: fetch_inv_def empty_not_in_add_items)

lemma fetch_inv_trans:
  assumes "fetch_inv (add_items its E) w1 y"
    and "trace w1 = trace w @ [PlaylistItems pid off lim f]"
  shows "fetch_inv E w y"
proof -
  from assms(1) obtain evs where evs: "trace (snd y) = trace w1 @ evs" "add_calls evs = []"
      "page_calls evs = evs" "evs \<noteq> []"
    and rest: "(case fst y of Inl e \<Rightarrow> True | Inr E' \<Rightarrow> [] \<notin> add_items its E \<longrightarrow> [] \<notin> E')"
    unfolding fetch_inv_def by blast
  have "trace (snd y) = trace w @ (PlaylistItems pid off lim f # evs)"
    using evs(1) assms(2) by simp
  moreover have "add_calls (PlaylistItems pid off lim f # evs) = []"
    using evs(2) by simp
  moreover have "page_calls (PlaylistItems pid off lim f # evs) = PlaylistItems pid off lim f # evs"
    using evs(3) by simp
  moreover have "PlaylistItems pid off lim f # evs \<noteq> []"
    by simp
  moreover have "(case fst y of Inl e \<Rightarrow> True | Inr E' \<Rightarrow> [] \<notin> E \<longrightarrow> [] \<notin> E')"
    using rest empty_not_in_add_items [of E its] by (auto split: sum.splits)
  ultimately show ?thesis
    unfolding fetch_inv_def by blast
qed

lemma call_playlist_items_trace:
  "call_playlist_items sp pid off lim f w = (r, w1) \<Longrightarrow>
     trace w1 = trace w @ [PlaylistItems pid off lim f]"
  by (auto simp: call_playlist_items_def emit_def split: prod.splits)

lemma fetch_step_inv:
  assumes IH: "\<And>sp pid off lim E w y. f sp pid off lim E w = Some y \<Longrightarrow> fetch_inv E w y"
    and step: "(case call_playlist_items sp pid off lim page_fields w of
        (Inl e, w') \<Rightarrow> Some (Inl e, w')
      | (Inr response, w') \<Rightarrow>
          (let its = response_get_items response;
               existing' = add_items its E;
               offset' = off + lim
           in if int (length its) < lim then Some (Inr existing', w')
              else f sp pid offset' lim existing' w')) = Some y"
  shows "fetch_inv E w y"
proof -
  obtain r w1 where c: "call_playlist_items sp pid off lim page_fields w = (r, w1)"
    by (cases "call_playlist_items sp pid off lim page_fields w") auto
  note t = call_playlist_items_trace [OF c]
  show ?thesis
  proof (cases r)
    case (Inl e)
    with step c have "y = (Inl e, w1)" by simp
    then show ?thesis using fetch_inv_error [OF t] by simp
  next
    case (Inr response)
    show ?thesis
    proof (cases "int (length (response_get_items response)) < lim")
      case True
      with step c Inr have "y = (Inr (add_items (response_get_items response) E), w1)"
        by simp
      then show ?thesis using fetch_inv_return [OF t] by simp
    next
      case False
      with step c Inr
      have "f sp pid (off + lim) lim (add_items (response_get_items response) E) w1 = Some y"
        by simp
      then have "fetch_inv (add_items (response_get_items response) E) w1 y"
        by (rule IH)
      then show ?thesis by (rule fetch_inv_trans [OF _ t])
    qed
  qed
qed

lemma fetch_pages_inv:
  assumes "fetch_pages sp pid off lim E w = Some y"
  shows "fetch_inv E w y"
  using assms
proof (rule fetch_pages.raw_induct [rotated, where P = "\<lambda>sp pid off lim E w y. fetch_inv E w y"])
  fix f :: "'a spotify \<Rightarrow> string \<Rightarrow> int \<Rightarrow> int \<Rightarrow> string set \<Rightarrow> 'a world
     \<Rightarrow> ((error + string set) \<times> 'a world) option"
  fix sp pid off lim E w y
  assume IH: "\<And>sp pid off lim E w y. f sp pid off lim E w = Some y \<Longrightarrow> fetch_inv E w y"
  assume step: "(case call_playlist_items sp pid off lim page_fields w of
        (Inl e, w') \<Rightarrow> Some (Inl e, w')
      | (Inr response, w') \<Rightarrow>
          (let its = response_get_items response;
               existing' = add_items its E;
               offset' = off + lim
           in if int (length its) < lim then Some (Inr existing', w')
              else f sp pid offset' lim existing' w')) = Some y"
  show "fetch_inv E w y"
    by (rule fetch_step_inv [of f, OF IH step])
qed

lemma item_ids_append: "item_ids (xs @ ys) = item_ids xs \<union> item_ids ys"
  by (auto simp: item_ids_def present_ids_def map_filter_def)

lemma item_ids_Nil: "item_ids [] = {}"
  by (simp add: item_ids_def present_ids_def map_filter_simps)

lemma pages_union:
  "(\<Union>k\<le>m. item_ids (take 100 (drop (k * 100) pl))) = item_ids (take (Suc m * 100) pl)"
proof (induction m)
  case 0
  then show ?case by simp
next
  case (Suc m)
  have "take (Suc (Suc m) * 100) pl = take (Suc m * 100) pl @ take 100 (drop (Suc m * 100) pl)"
    by (simp add: take_add [symmetric] add.commute)
  then show ?case
    by (simp only: atMost_Suc UN_insert Suc.IH item_ids_append) auto
qed

lemma get_existing_run:
  assumes "\<forall>k\<le>n. playlist_items sp (st k) pid (int k * 100) 100 page_fields
                   = (Inr (resp k), st (Suc k))"
    and "\<forall>k<n. 100 \<le> length (response_get_items (resp k))"
    and "length (response_get_items (resp n)) < 100"
  shows "get_existing_track_ids sp pid \<lparr>client = st 0, trace = tr\<rparr> =
         Some (Inr (\<Union>k\<le>n. item_ids (response_get_items (resp k))),
               \<lparr>client = st (Suc n),
                trace = tr @ map (\<lambda>k. PlaylistItems pid (int k * 100) 100 page_fields) [0..<Suc n]\<rparr>)"
proof -
  have h1: "\<forall>k\<le>n. playlist_items sp (st k) pid (0 + int k * 100) 100 page_fields
                   = (Inr (resp k), st (Suc k))"
    using assms(1) by simp
  have h2: "\<forall>k<n. \<not> int (length (response_get_items (resp k))) < 100"
    using assms(2) by (simp add: not_less)
  have h3: "int (length (response_get_items (resp n))) < 100"
    using assms(3) by simp
  show ?thesis
    unfolding get_existing_track_ids_def
    using fetch_pages_run [of n sp st pid 0 100 resp "{}" tr, OF h1 h2 h3]
    by simp
qed

lemma fetch_trace:
  assumes "get_existing_track_ids sp pid w = Some (r, w1)"
  shows "\<exists>evs. trace w1 = trace w @ evs \<and> add_calls evs = [] \<and> page_calls evs = evs \<and> evs \<noteq> []"
  using fetch_pages_inv [OF assms [unfolded get_existing_track_ids_def]]
  by (simp add: fetch_inv_def)


section \<open>Properties of the batch loop\<close>

lemma chunks_Nil: "chunks n [] = []"
  by (simp add: chunks.simps)

lemma chunks_Cons: "0 < n \<Longrightarrow> xs \<noteq> [] \<Longrightarrow> chunks n xs = take n xs # chunks n (drop n xs)"
  by (subst chunks.simps) simp

lemma concat_chunks: "0 < n \<Longrightarrow> concat (chunks n xs) = xs"
proof (induction n xs rule: chunks.induct)
  case (1 n xs)
  show ?case
  proof (cases "xs = []")
    case True
    then show ?thesis by (simp add: chunks_Nil)
  next
    case False
    with 1 show ?thesis by (simp add: chunks_Cons)
  qed
qed

lemma chunks_bounds: "b \<in> set (chunks n xs) \<Longrightarrow> b \<noteq> [] \<and> length b \<le> n"
proof (induction n xs rule: chunks.induct)
  case (1 n xs)
  show ?case
  proof (cases "n = 0 \<or> xs = []")
    case True
    with 1(2) show ?thesis by (simp add: chunks.simps)
  next
    case False
    then have "chunks n xs = take n xs # chunks n (drop n xs)"
      by (simp add: chunks_Cons)
    with 1 False show ?thesis by auto
  qed
qed

lemma ceil_div_step:
  assumes "0 < (m::nat)"
  shows "Suc ((m - 100 + 99) div 100) = (m + 99) div 100"
proof (cases "100 \<le> m")
  case True
  then have "m + 99 = (m - 100 + 99) + 100" by simp
  then have "(m + 99) div 100 = ((m - 100 + 99) + 100) div 100" by simp
  also have "\<dots> = Suc ((m - 100 + 99) div 100)" by (simp only: div_add_self2) (simp?)
  finally show ?thesis by simp
next
  case False
  then have a: "(m - 100 + 99) div 100 = 0" by simp
  from False assms have "m + 99 = (m - 1) + 100" by simp
  then have "(m + 99) div 100 = ((m - 1) + 100) div 100" by simp
  also have "\<dots> = Suc ((m - 1) div 100)" by (simp only: div_add_self2) (simp?)
  also have "\<dots> = Suc 0" using False by simp
  finally show ?thesis using a by simp
qed

lemma length_chunks_100: "length (chunks 100 xs) = (length xs + 99) div 100"
proof (induction "100::nat" xs rule: chunks.induct)
  case (1 xs)
  show ?case
  proof (cases "xs = []")
    case True
    then show ?thesis by (simp add: chunks_Nil)
  next
    case False
    then have pos: "0 < length xs" by simp
    have "length (chunks 100 xs) = Suc ((length xs - 100 + 99) div 100)"
      using False 1 by (simp add: chunks_Cons)
    also have "\<dots> = (length xs + 99) div 100"
      by (rule ceil_div_step [OF pos])
    finally show ?thesis .
  qed
qed

lemma chunks_150:
  assumes "length xs = 150"
  shows "chunks 100 xs = [take 100 xs, drop 100 xs]"
proof -
  have "xs \<noteq> []" using assms by auto
  moreover have "drop 100 xs \<noteq> []" using assms by auto
  moreover have "drop 100 (drop 100 xs) = []" using assms by simp
  moreover have "take 100 (drop 100 xs) = drop 100 xs" using assms by simp
  ultimately show ?thesis
    by (simp add: chunks_Cons chunks_Nil)
qed

lemma slices_chunks:
  "0 < n \<Longrightarrow> map (\<lambda>s. py_slice xs s (s + n)) (py_range a (length xs) n) = chunks n (drop a xs)"
proof (induction a "length xs" n rule: py_range.induct)
  case (1 start step)
  show ?case
  proof (cases "start < length xs")
    case True
    then have ne: "drop start xs \<noteq> []" by simp
    have r: "py_range start (length xs) step = start # py_range (start + step) (length xs) step"
      using True 1(2) by (subst py_range.simps) simp
    have "chunks step (drop start xs) =
          take step (drop start xs) # chunks step (drop (start + step) xs)"
      using 1(2) ne by (simp add: chunks_Cons add.commute)
    then show ?thesis
      using 1 True by (simp add: r py_slice_def)
  next
    case False
    then show ?thesis by (simp add: py_range.simps chunks_Nil)
  qed
qed

lemma code_batches:
  "map (\<lambda>s. py_slice xs s (s + 100)) (py_range 0 (length xs) 100) = chunks 100 xs"
  using slices_chunks [of 100 xs 0] by simp

lemma length_py_range: "length (py_range 0 (length xs) 100) = length (chunks 100 xs)"
  using arg_cong [OF code_batches [of xs], of length] by simp

lemma call_add_ok:
  assumes "playlist_add_items sp s pid b = (r, s')"
  shows "call_playlist_add_items sp pid b \<lparr>client = s, trace = tr\<rparr> =
         (r, \<lparr>client = s', trace = tr @ [PlaylistAddItems pid b]\<rparr>)"
  using assms by (simp add: call_playlist_add_items_def emit_def)

lemma add_batches_ok:
  assumes "\<forall>j<length starts. playlist_add_items sp (st j) pid (py_slice xs (starts ! j) (starts ! j + n))
             = (Inr (), st (Suc j))"
  shows "add_batches sp pid xs n starts \<lparr>client = st 0, trace = tr\<rparr> =
         (Inr (), \<lparr>client = st (length starts),
                   trace = tr @ concat (map (\<lambda>s. batch_events pid (py_slice xs s (s + n))) starts)\<rparr>)"
  using assms
proof (induction starts arbitrary: st tr)
  case Nil
  then show ?case by simp
next
  case (Cons a starts)
  have first: "playlist_add_items sp (st 0) pid (py_slice xs a (a + n)) = (Inr (), st (Suc 0))"
    using Cons.prems by fastforce
  have rest: "\<forall>j<length starts. playlist_add_items sp ((st \<circ> Suc) j) pid
                  (py_slice xs (starts ! j) (starts ! j + n)) = (Inr (), (st \<circ> Suc) (Suc j))"
    using Cons.prems by fastforce
  show ?case
    using Cons.IH [of "st \<circ> Suc", OF rest]
    by (simp add: call_add_ok [OF first] emit_def batch_events_def Let_def)
qed

lemma add_batches_fail:
  assumes "k < length starts"
    and "\<forall>j<k. playlist_add_items sp (st j) pid (py_slice xs (starts ! j) (starts ! j + n))
             = (Inr (), st (Suc j))"
    and "playlist_add_items sp (st k) pid (py_slice xs (starts ! k) (starts ! k + n)) = (Inl e, s')"
  shows "add_batches sp pid xs n starts \<lparr>client = st 0, trace = tr\<rparr> =
         (Inl e, \<lparr>client = s',
                  trace = tr @ concat (map (\<lambda>s. batch_events pid (py_slice xs s (s + n))) (take k starts))
                          @ [PlaylistAddItems pid (py_slice xs (starts ! k) (starts ! k + n))]\<rparr>)"
  using assms
proof (induction starts arbitrary: k st tr)
  case Nil
  then show ?case by simp
next
  case (Cons a starts)
  show ?case
  proof (cases k)
    case 0
    with Cons.prems(3) have "playlist_add_items sp (st 0) pid (py_slice xs a (a + n)) = (Inl e, s')"
      by simp
    then show ?thesis
      using 0 by (simp add: call_add_ok Let_def)
  next
    case (Suc k')
    have first: "playlist_add_items sp (st 0) pid (py_slice xs a (a + n)) = (Inr (), st (Suc 0))"
      using Cons.prems(2) Suc by fastforce
    have k': "k' < length starts" using Cons.prems(1) Suc by simp
    have rest: "\<forall>j<k'. playlist_add_items sp ((st \<circ> Suc) j) pid
                  (py_slice xs (starts ! j) (starts ! j + n)) = (Inr (), (st \<circ> Suc) (Suc j))"
      using Cons.prems(2) Suc by fastforce
    have last: "playlist_add_items sp ((st \<circ> Suc) k') pid
                  (py_slice xs (starts ! k') (starts ! k' + n)) = (Inl e, s')"
      using Cons.prems(3) Suc by simp
    show ?thesis
      using Cons.IH [of k' "st \<circ> Suc", OF k' rest last] Suc
      by (simp add: call_add_ok [OF first] emit_def batch_events_def Let_def)
  qed
qed

lemma add_batches_any:
  assumes "add_batches sp pid xs n starts w = (r, w')"
  shows "\<exists>evs k. trace w' = trace w @ evs \<and> page_calls evs = [] \<and> k \<le> length starts
            \<and> add_calls evs = map (\<lambda>s. py_slice xs s (s + n)) (take k starts)
            \<and> (r = Inr () \<longrightarrow> k = length starts)
            \<and> (\<forall>e. r = Inl e \<longrightarrow> 0 < k \<and>
                  (\<exists>s s'. playlist_add_items sp s pid
                     (py_slice xs (starts ! (k - 1)) (starts ! (k - 1) + n)) = (Inl e, s')))"
  using assms
proof (induction starts arbitrary: w)
  case Nil
  then show ?case by auto
next
  case (Cons a starts)
  obtain r1 w1 where c: "call_playlist_add_items sp pid (py_slice xs a (a + n)) w = (r1, w1)"
    by (cases "call_playlist_add_items sp pid (py_slice xs a (a + n)) w") auto
  then have t1: "trace w1 = trace w @ [PlaylistAddItems pid (py_slice xs a (a + n))]"
    by (auto simp: call_playlist_add_items_def emit_def split: prod.splits)
  from c have p1: "\<exists>s s'. playlist_add_items sp s pid (py_slice xs a (a + n)) = (r1, s')"
    by (auto simp: call_playlist_add_items_def split: prod.splits)
  show ?case
  proof (cases r1)
    case (Inl e)
    with Cons.prems c have rw: "r = Inl e" "w' = w1" by auto
    have cause: "\<forall>e'. r = Inl e' \<longrightarrow> 0 < Suc 0 \<and>
        (\<exists>s s'. playlist_add_items sp s pid
           (py_slice xs ((a # starts) ! (Suc 0 - 1)) ((a # starts) ! (Suc 0 - 1) + n)) = (Inl e', s'))"
      using p1 rw(1) Inl by simp
    have "trace w' = trace w @ [PlaylistAddItems pid (py_slice xs a (a + n))]
        \<and> page_calls [PlaylistAddItems pid (py_slice xs a (a + n))] = []
        \<and> Suc 0 \<le> length (a # starts)
        \<and> add_calls [PlaylistAddItems pid (py_slice xs a (a + n))]
            = map (\<lambda>s. py_slice xs s (s + n)) (take (Suc 0) (a # starts))
        \<and> (r = Inr () \<longrightarrow> Suc 0 = length (a # starts))"
      using t1 rw by simp
    with cause show ?thesis by blast
  next
    case (Inr u)
    let ?w2 = "emit (Print (''Added '' @ py_str (length (py_slice xs a (a + n))) @ '' tracks.'')) w1"
    from Cons.prems c Inr have "add_batches sp pid xs n starts ?w2 = (r, w')"
      by simp
    from Cons.IH [OF this] obtain evs k where
      ih: "trace w' = trace ?w2 @ evs" "page_calls evs = []" "k \<le> length starts"
        "add_calls evs = map (\<lambda>s. py_slice xs s (s + n)) (take k starts)"
        "r = Inr () \<longrightarrow> k = length starts"
      and ihc: "\<forall>e. r = Inl e \<longrightarrow> 0 < k \<and>
                  (\<exists>s s'. playlist_add_items sp s pid
                     (py_slice xs (starts ! (k - 1)) (starts ! (k - 1) + n)) = (Inl e, s'))"
      by blast
    let ?evs = "batch_events pid (py_slice xs a (a + n)) @ evs"
    have cause: "\<forall>e. r = Inl e \<longrightarrow> 0 < Suc k \<and>
        (\<exists>s s'. playlist_add_items sp s pid
           (py_slice xs ((a # starts) ! (Suc k - 1)) ((a # starts) ! (Suc k - 1) + n)) = (Inl e, s'))"
    proof (intro allI impI)
      fix e assume "r = Inl e"
      with ihc have k: "0 < k" and ex: "\<exists>s s'. playlist_add_items sp s pid
                     (py_slice xs (starts ! (k - 1)) (starts ! (k - 1) + n)) = (Inl e, s')"
        by auto
      from k have "(a # starts) ! (Suc k - 1) = starts ! (k - 1)"
        by (cases k) auto
      with ex show "0 < Suc k \<and>
        (\<exists>s s'. playlist_add_items sp s pid
           (py_slice xs ((a # starts) ! (Suc k - 1)) ((a # starts) ! (Suc k - 1) + n)) = (Inl e, s'))"
        by simp
    qed
    have "trace w' = trace w @ ?evs \<and> page_calls ?evs = [] \<and> Suc k \<le> length (a # starts)
        \<and> add_calls ?evs = map (\<lambda>s. py_slice xs s (s + n)) (take (Suc k) (a # starts))
        \<and> (r = Inr () \<longrightarrow> Suc k = length (a # starts))"
      using ih t1 by (simp add: emit_def batch_events_def)
    with cause show ?thesis by blast
  qed
qed


section \<open>Properties of a whole run\<close>

lemma events_since_append: "trace w2 = trace w1 @ evs \<Longrightarrow> events_since w1 w2 = evs"
  by (simp add: events_since_def)

lemma add_tracks_unfold:
  assumes "get_existing_track_ids sp pid w = Some (Inr E, w1)"
  shows "add_tracks_to_playlist sp pid xs w =
     (if filter (\<lambda>tid. tid \<notin> E) xs = [] then
        Some (Inr (),
          emit (Print ''No new tracks to add; playlist already contains all provided songs.'') w1)
      else
        (case add_batches sp pid (filter (\<lambda>tid. tid \<notin> E) xs) 100
                (py_range 0 (length (filter (\<lambda>tid. tid \<notin> E) xs)) 100)
                (emit (adding_line pid (length (filter (\<lambda>tid. tid \<notin> E) xs))) w1) of
           (Inl e, w3) \<Rightarrow> Some (Inl e, w3)
         | (Inr u, w3) \<Rightarrow> Some (Inr (), emit (Print ''All tracks added successfully.'') w3)))"
  using assms by (simp add: add_tracks_to_playlist_def adding_line_def Let_def)

lemma count_list_filter:
  "count_list (filter P xs) x = (if P x then count_list xs x else 0)"
  by (induction xs) auto

lemma prefix_concat_take: "prefix (concat (take k xss)) (concat xss)"
proof -
  have "concat xss = concat (take k xss) @ concat (drop k xss)"
    by (simp add: concat_append [symmetric])
  then show ?thesis by (metis prefixI)
qed

lemma dummy_methods:
  "playlist_items DummySpotifyClient = dummy_playlist_items"
  "playlist_add_items DummySpotifyClient = dummy_playlist_add_items"
  by (simp_all add: DummySpotifyClient_def)

lemma existing_test_fetch:
  "get_existing_track_ids DummySpotifyClient ''dummy'' \<lparr>client = dummy_init existing_responses, trace = []\<rparr>
     = Some (Inr {''id1''},
         \<lparr>client = (dummy_init existing_responses)\<lparr>playlist_items_calls := 1\<rparr>,
          trace = [PlaylistItems ''dummy'' 0 100 page_fields]\<rparr>)"
  unfolding get_existing_track_ids_def
  by (subst fetch_pages.simps)
    (simp add: call_playlist_items_def dummy_methods dummy_playlist_items_def dummy_init_def
      existing_responses_def emit_def response_get_items_def)

lemma existing_test_run:
  "add_tracks_to_playlist DummySpotifyClient ''dummy'' test_track_ids
       \<lparr>client = dummy_init existing_responses, trace = []\<rparr>
     = Some (Inr (),
         \<lparr>client = \<lparr>playlist_responses = existing_responses, playlist_items_calls = 1,
                     added_batches = [[''id2'', ''id2'', ''id3'', ''id4'', ''id5'']]\<rparr>,
          trace = [PlaylistItems ''dummy'' 0 100 page_fields,
                   Print ''Adding 5 new tracks to playlist dummy...'',
                   PlaylistAddItems ''dummy'' [''id2'', ''id2'', ''id3'', ''id4'', ''id5''],
                   Print ''Added 5 tracks.'',
                   Print ''All tracks added successfully.'']\<rparr>)"
  unfolding add_tracks_unfold [OF existing_test_fetch]
  by (simp add: test_track_ids_def py_range.simps py_slice_def call_playlist_add_items_def
      dummy_methods dummy_playlist_add_items_def dummy_init_def emit_def adding_line_def
      py_str.simps py_digit_def Let_def)


section \<open>The claims about the snapshot fetch and the batches\<close>

lemma length_first_page_items: "length first_page_items = 100"
  by (simp add: first_page_items_def)

lemma dummy_page:
  "k < length rs \<Longrightarrow>
   playlist_items DummySpotifyClient ((dummy_init rs)\<lparr>playlist_items_calls := k\<rparr>) pid off lim f
     = (Inr (rs ! k), (dummy_init rs)\<lparr>playlist_items_calls := Suc k\<rparr>)"
  by (simp add: dummy_methods dummy_playlist_items_def dummy_init_def)

lemma dummy_init_calls: "(dummy_init rs)\<lparr>playlist_items_calls := 0\<rparr> = dummy_init rs"
  by (simp add: dummy_init_def)

text \<open>
  Claim C6. Take any client and any run of it in which the pages \<open>resp 0\<close>, ...,
  \<open>resp n\<close> are what it answers to the requests at the offsets 0, 100, ...,
  \<open>n * 100\<close>, the pages before \<open>resp n\<close> hold at least 100 entries and
  \<open>resp n\<close> holds fewer than 100. Then \<^verbatim>\<open>get_existing_track_ids\<close> returns, and it
  has issued exactly \<open>n + 1\<close> requests: it stops right after the first short
  page, whatever the \<open>total\<close> fields of the pages say, and request number \<open>k\<close>
  (counted from 1) carries the offset \<open>(k - 1) * 100\<close> and the limit 100.
\<close>

theorem fetch_stops_at_first_short_page:
  assumes "\<forall>k\<le>n. playlist_items sp (st k) pid (int k * 100) 100 page_fields
                   = (Inr (resp k), st (Suc k))"
    and "\<forall>k<n. 100 \<le> length (response_get_items (resp k))"
    and "length (response_get_items (resp n)) < 100"
  shows "get_existing_track_ids sp pid \<lparr>client = st 0, trace = tr\<rparr> =
         Some (Inr (\<Union>k\<le>n. item_ids (response_get_items (resp k))),
               \<lparr>client = st (Suc n),
                trace = tr @ map (\<lambda>k. PlaylistItems pid (int k * 100) 100 page_fields) [0..<Suc n]\<rparr>)"
  using assms by (rule get_existing_run)

theorem fetch_stops_at_first_short_page_witness:
  "get_existing_track_ids DummySpotifyClient ''dummy''
     \<lparr>client = dummy_init
        [\<lparr>items = Some first_page_items, total = Some 5000\<rparr>,
         \<lparr>items = Some second_page_items, total = Some 5000\<rparr>,
         \<lparr>items = Some first_page_items, total = Some 5000\<rparr>],
      trace = []\<rparr> =
   Some (Inr (item_ids first_page_items \<union> item_ids second_page_items),
     \<lparr>client = (dummy_init
        [\<lparr>items = Some first_page_items, total = Some 5000\<rparr>,
         \<lparr>items = Some second_page_items, total = Some 5000\<rparr>,
         \<lparr>items = Some first_page_items, total = Some 5000\<rparr>])\<lparr>playlist_items_calls := 2\<rparr>,
      trace = [PlaylistItems ''dummy'' 0 100 page_fields,
               PlaylistItems ''dummy'' 100 100 page_fields]\<rparr>)"
proof -
  let ?rs = "[\<lparr>items = Some first_page_items, total = Some 5000\<rparr>,
         \<lparr>items = Some second_page_items, total = Some 5000\<rparr>,
         \<lparr>items = Some first_page_items, total = Some 5000\<rparr>]"
  let ?st = "\<lambda>k. (dummy_init ?rs)\<lparr>playlist_items_calls := k\<rparr>"
  let ?resp = "\<lambda>k. ?rs ! k"
  have h1: "\<forall>k\<le>Suc 0. playlist_items DummySpotifyClient (?st k) ''dummy'' (int k * 100) 100 page_fields
                   = (Inr (?resp k), ?st (Suc k))"
    by (intro allI impI dummy_page) simp
  have h2: "\<forall>k<Suc 0. 100 \<le> length (response_get_items (?resp k))"
    by (simp add: response_get_items_def length_first_page_items)
  have h3: "length (response_get_items (?resp (Suc 0))) < 100"
    by (simp add: response_get_items_def second_page_items_def)
  show ?thesis
    using fetch_stops_at_first_short_page [of "Suc 0" DummySpotifyClient ?st "''dummy''" ?resp "[]",
        OF h1 h2 h3]
    by (simp add: dummy_init_calls response_get_items_def atMost_Suc numeral_2_eq_2 Un_commute)
qed

text \<open>
  Claim C9. When the response to a page request has no \<open>items\<close> field, after
  \<open>n\<close> full pages, \<^verbatim>\<open>get_existing_track_ids\<close> does not fail: that request is its
  last one and it returns the identifiers of the \<open>n\<close> earlier pages, with
  nothing added.
\<close>

theorem missing_items_is_empty_page:
  assumes "\<forall>k\<le>n. playlist_items sp (st k) pid (int k * 100) 100 page_fields
                   = (Inr (resp k), st (Suc k))"
    and "\<forall>k<n. 100 \<le> length (response_get_items (resp k))"
    and "items (resp n) = None"
  shows "get_existing_track_ids sp pid \<lparr>client = st 0, trace = tr\<rparr> =
         Some (Inr (\<Union>k<n. item_ids (response_get_items (resp k))),
               \<lparr>client = st (Suc n),
                trace = tr @ map (\<lambda>k. PlaylistItems pid (int k * 100) 100 page_fields) [0..<Suc n]\<rparr>)"
proof -
  have e: "response_get_items (resp n) = []"
    using assms(3) by (simp add: response_get_items_def)
  then have short: "length (response_get_items (resp n)) < 100" by simp
  have "(\<Union>k\<le>n. item_ids (response_get_items (resp k))) =
        (\<Union>k<n. item_ids (response_get_items (resp k)))"
    by (simp add: atMost_Suc [symmetric] lessThan_Suc_atMost [symmetric] lessThan_Suc e item_ids_Nil)
  then show ?thesis
    using get_existing_run [OF assms(1,2) short, of tr] by simp
qed

theorem missing_items_is_empty_page_witness:
  "get_existing_track_ids DummySpotifyClient ''dummy''
     \<lparr>client = dummy_init
        [\<lparr>items = Some first_page_items, total = None\<rparr>, \<lparr>items = None, total = Some 100\<rparr>],
      trace = []\<rparr> =
   Some (Inr (item_ids first_page_items),
     \<lparr>client = (dummy_init
        [\<lparr>items = Some first_page_items, total = None\<rparr>,
         \<lparr>items = None, total = Some 100\<rparr>])\<lparr>playlist_items_calls := 2\<rparr>,
      trace = [PlaylistItems ''dummy'' 0 100 page_fields,
               PlaylistItems ''dummy'' 100 100 page_fields]\<rparr>)"
proof -
  let ?rs = "[\<lparr>items = Some first_page_items, total = None\<rparr>, \<lparr>items = None, total = Some 100\<rparr>]"
  let ?st = "\<lambda>k. (dummy_init ?rs)\<lparr>playlist_items_calls := k\<rparr>"
  let ?resp = "\<lambda>k. ?rs ! k"
  have h1: "\<forall>k\<le>Suc 0. playlist_items DummySpotifyClient (?st k) ''dummy'' (int k * 100) 100 page_fields
                   = (Inr (?resp k), ?st (Suc k))"
    by (intro allI impI dummy_page) simp
  have h2: "\<forall>k<Suc 0. 100 \<le> length (response_get_items (?resp k))"
    by (simp add: response_get_items_def length_first_page_items)
  have h3: "items (?resp (Suc 0)) = None"
    by simp
  show ?thesis
    using missing_items_is_empty_page [of "Suc 0" DummySpotifyClient ?st "''dummy''" ?resp "[]",
        OF h1 h2 h3]
    by (simp add: dummy_init_calls response_get_items_def lessThan_Suc numeral_2_eq_2)
qed

text \<open>
  Claim C3 says that the returned set holds the identifiers of all entries but
  those without track reference or with a null identifier. An entry whose
  identifier is the empty string has a track reference and a non-null
  identifier, and the code leaves it out.
\<close>

theorem fetch_union_counterexample:
  "map_option fst (get_existing_track_ids DummySpotifyClient ''dummy''
      \<lparr>client = dummy_init [\<lparr>items = Some [Item (Some (Track (Some '''')))], total = None\<rparr>],
       trace = []\<rparr>) = Some (Inr {})
   \<and> map_option fst (get_existing_track_ids DummySpotifyClient ''dummy''
      \<lparr>client = dummy_init [\<lparr>items = Some [Item (Some (Track (Some '''')))], total = None\<rparr>],
       trace = []\<rparr>) \<noteq> Some (Inr (present_ids [Item (Some (Track (Some '''')))]))"
  unfolding get_existing_track_ids_def
  by (subst (1 2) fetch_pages.simps)
    (simp add: call_playlist_items_def dummy_methods dummy_playlist_items_def dummy_init_def
      emit_def response_get_items_def present_ids_def map_filter_def)

text \<open>
  Claim C3, amended. A playlist of \<open>N + 1\<close> entries, \<open>N\<close> a multiple of 100, is
  served in pages of 100 entries with one entry on the last page. Then
  \<^verbatim>\<open>get_existing_track_ids\<close> issues exactly \<open>(N + 1 + 99) div 100\<close> page requests,
  the ceiling of \<open>(N + 1) / 100\<close>, and returns the identifiers of all entries
  of all pages but those without track reference, with a null identifier or with
  an empty identifier.
\<close>

theorem fetch_whole_playlist:
  assumes len: "length pl = N + 1" and dvd: "100 dvd N"
    and pages: "\<forall>k\<le>N div 100. playlist_items sp (st k) pid (int k * 100) 100 page_fields
            = (Inr \<lparr>items = Some (take 100 (drop (k * 100) pl)), total = tot k\<rparr>, st (Suc k))"
  shows "get_existing_track_ids sp pid \<lparr>client = st 0, trace = tr\<rparr> =
     Some (Inr (present_ids pl - {[]}),
           \<lparr>client = st ((N + 1 + 99) div 100),
            trace = tr @ map (\<lambda>k. PlaylistItems pid (int k * 100) 100 page_fields)
                          [0..<(N + 1 + 99) div 100]\<rparr>)"
proof -
  from dvd obtain q where N: "N = 100 * q" by (auto simp: dvd_def)
  have q: "N div 100 = q" using N by simp
  have ceil: "(N + 1 + 99) div 100 = Suc q" using N by simp
  let ?resp = "\<lambda>k. \<lparr>items = Some (take 100 (drop (k * 100) pl)), total = tot k\<rparr>"
  have h1: "\<forall>k\<le>q. playlist_items sp (st k) pid (int k * 100) 100 page_fields
            = (Inr (?resp k), st (Suc k))"
    using pages q by simp
  have h2: "\<forall>k<q. 100 \<le> length (response_get_items (?resp k))"
  proof (intro allI impI)
    fix k assume "k < q"
    then have "k * 100 + 100 \<le> length pl" using len N by simp
    then show "100 \<le> length (response_get_items (?resp k))"
      by (simp add: response_get_items_def)
  qed
  have h3: "length (response_get_items (?resp q)) < 100"
    using len N by (simp add: response_get_items_def)
  have "(\<Union>k\<le>q. item_ids (response_get_items (?resp k))) = item_ids (take (Suc q * 100) pl)"
    using pages_union [where m = q and pl = pl] by (simp add: response_get_items_def)
  also have "\<dots> = item_ids pl" using len N by simp
  finally have un: "(\<Union>k\<le>q. item_ids (response_get_items (?resp k))) = present_ids pl - {[]}"
    by (simp add: item_ids_def)
  show ?thesis
    unfolding ceil
    using get_existing_run [of q sp st pid ?resp tr, OF h1 h2 h3]
    by (simp only: un)
qed

theorem fetch_whole_playlist_witness:
  "length (first_page_items @ second_page_items) = 100 + 1 \<and> (100::nat) dvd 100 \<and>
   get_existing_track_ids DummySpotifyClient ''dummy''
     \<lparr>client = dummy_init paginated_responses, trace = []\<rparr> =
   Some (Inr (present_ids (first_page_items @ second_page_items) - {[]}),
     \<lparr>client = (dummy_init paginated_responses)\<lparr>playlist_items_calls := 2\<rparr>,
      trace = [PlaylistItems ''dummy'' 0 100 page_fields,
               PlaylistItems ''dummy'' 100 100 page_fields]\<rparr>)"
proof -
  let ?pl = "first_page_items @ second_page_items"
  let ?st = "\<lambda>k. (dummy_init paginated_responses)\<lparr>playlist_items_calls := k\<rparr>"
  have len: "length ?pl = 100 + 1"
    by (simp add: length_first_page_items second_page_items_def)
  have dvd: "(100::nat) dvd 100" by simp
  have nth: "\<And>k. k \<le> Suc 0 \<Longrightarrow> paginated_responses ! k
       = \<lparr>items = Some (take 100 (drop (k * 100) ?pl)), total = None\<rparr>"
    by (auto simp: paginated_responses_def length_first_page_items second_page_items_def le_Suc_eq)
  have pages: "\<forall>k\<le>100 div 100. playlist_items DummySpotifyClient (?st k) ''dummy'' (int k * 100) 100 page_fields
            = (Inr \<lparr>items = Some (take 100 (drop (k * 100) ?pl)), total = None\<rparr>, ?st (Suc k))"
  proof (intro allI impI)
    fix k :: nat assume "k \<le> 100 div 100"
    then have k: "k \<le> Suc 0" by simp
    then have "k < length paginated_responses" by (simp add: paginated_responses_def)
    from dummy_page [OF this] nth [OF k]
    show "playlist_items DummySpotifyClient (?st k) ''dummy'' (int k * 100) 100 page_fields
            = (Inr \<lparr>items = Some (take 100 (drop (k * 100) ?pl)), total = None\<rparr>, ?st (Suc k))"
      by simp
  qed
  show ?thesis
    using fetch_whole_playlist [of ?pl 100 DummySpotifyClient ?st "''dummy''" "\<lambda>k. None" "[]",
        OF len dvd pages] len
    by (simp add: dummy_init_calls numeral_2_eq_2)
qed

text \<open>
  Claim C10. A set returned by \<^verbatim>\<open>get_existing_track_ids\<close> never contains the
  empty string: a page entry whose identifier is the empty string is skipped
  like an entry without identifier.
\<close>

theorem existing_never_has_empty_string:
  assumes "get_existing_track_ids sp pid w = Some (Inr E, w')"
  shows "[] \<notin> E \<and> add_items (Item (Some (Track (Some []))) # its) E0 = add_items its E0"
proof -
  have "fetch_inv {} w (Inr E, w')"
    using assms unfolding get_existing_track_ids_def by (rule fetch_pages_inv)
  then show ?thesis by (simp add: fetch_inv_def)
qed

theorem existing_never_has_empty_string_witness:
  "[] \<notin> {''id1''} \<and>
   add_items (Item (Some (Track (Some []))) # [Item (Some (Track (Some ''id7'')))]) {''id1''}
     = add_items [Item (Some (Track (Some ''id7'')))] {''id1''}"
  using existing_never_has_empty_string [OF existing_test_fetch,
      of "[Item (Some (Track (Some ''id7'')))]" "{''id1''}"]
  by simp

lemma add_calls_batch_events: "add_calls (concat (map (batch_events pid) bs)) = bs"
  by (induction bs) (simp_all add: batch_events_def)

lemma emit_world:
  "client w1 = s \<Longrightarrow> emit ev (w1 :: 's world) = \<lparr>client = s, trace = trace w1 @ [ev]\<rparr>"
  by (simp add: emit_def)

lemma slice_nth:
  assumes "j < length (chunks 100 res)"
  shows "py_slice res (py_range 0 (length res) 100 ! j) (py_range 0 (length res) 100 ! j + 100)
           = chunks 100 res ! j"
proof -
  have "j < length (py_range 0 (length res) 100)"
    using assms by (simp add: length_py_range)
  then have "map (\<lambda>s. py_slice res s (s + 100)) (py_range 0 (length res) 100) ! j
      = py_slice res (py_range 0 (length res) 100 ! j) (py_range 0 (length res) 100 ! j + 100)"
    by (rule nth_map)
  then show ?thesis by (simp add: code_batches)
qed

lemma batch_events_slices:
  "concat (map (\<lambda>s. batch_events pid (py_slice res s (s + 100))) (take k (py_range 0 (length res) 100)))
     = concat (map (batch_events pid) (take k (chunks 100 res)))"
proof -
  have "map (batch_events pid) (take k (chunks 100 res))
      = map (batch_events pid) (take k (map (\<lambda>s. py_slice res s (s + 100)) (py_range 0 (length res) 100)))"
    by (simp only: code_batches)
  also have "\<dots> = map (\<lambda>s. batch_events pid (py_slice res s (s + 100))) (take k (py_range 0 (length res) 100))"
    by (simp add: take_map comp_def)
  finally show ?thesis by simp
qed

lemma add_tracks_ok:
  assumes fetch: "get_existing_track_ids sp pid w = Some (Inr E, w1)"
    and res: "residue = filter (\<lambda>tid. tid \<notin> E) xs"
    and bs: "batches = chunks 100 residue"
    and ne: "residue \<noteq> []"
    and st0: "client w1 = st 0"
    and ok: "\<forall>j<length batches. playlist_add_items sp (st j) pid (batches ! j) = (Inr (), st (Suc j))"
  shows "add_tracks_to_playlist sp pid xs w =
     Some (Inr (),
       \<lparr>client = st (length batches),
        trace = trace w1 @ adding_line pid (length residue)
                  # concat (map (batch_events pid) batches)
                  @ [Print ''All tracks added successfully.'']\<rparr>)"
proof -
  let ?starts = "py_range 0 (length residue) 100"
  have len: "length ?starts = length batches"
    unfolding bs by (rule length_py_range)
  have ok': "\<forall>j<length ?starts. playlist_add_items sp (st j) pid
               (py_slice residue (?starts ! j) (?starts ! j + 100)) = (Inr (), st (Suc j))"
    using ok slice_nth [of _ residue] unfolding len bs by simp
  have ev: "concat (map (\<lambda>s. batch_events pid (py_slice residue s (s + 100))) ?starts)
          = concat (map (batch_events pid) batches)"
    using batch_events_slices [of pid residue "length ?starts"] unfolding bs
    by (simp add: length_py_range)
  have "add_batches sp pid residue 100 ?starts
          \<lparr>client = st 0, trace = trace w1 @ [adding_line pid (length residue)]\<rparr>
      = (Inr (), \<lparr>client = st (length batches),
           trace = (trace w1 @ [adding_line pid (length residue)])
                    @ concat (map (batch_events pid) batches)\<rparr>)"
    using add_batches_ok [OF ok', of "trace w1 @ [adding_line pid (length residue)]"]
    by (simp only: ev len)
  moreover have "emit (adding_line pid (length residue)) w1
      = \<lparr>client = st 0, trace = trace w1 @ [adding_line pid (length residue)]\<rparr>"
    by (rule emit_world [OF st0])
  ultimately show ?thesis
    unfolding add_tracks_unfold [OF fetch] res [symmetric]
    using ne by (simp add: emit_def)
qed

lemma add_tracks_fail:
  assumes fetch: "get_existing_track_ids sp pid w = Some (Inr E, w1)"
    and res: "residue = filter (\<lambda>tid. tid \<notin> E) xs"
    and bs: "batches = chunks 100 residue"
    and st0: "client w1 = st 0"
    and k: "k < length batches"
    and ok: "\<forall>j<k. playlist_add_items sp (st j) pid (batches ! j) = (Inr (), st (Suc j))"
    and fail: "playlist_add_items sp (st k) pid (batches ! k) = (Inl e, s')"
  shows "add_tracks_to_playlist sp pid xs w =
     Some (Inl e,
       \<lparr>client = s',
        trace = trace w1 @ adding_line pid (length residue)
                  # concat (map (batch_events pid) (take k batches))
                  @ [PlaylistAddItems pid (batches ! k)]\<rparr>)"
proof -
  let ?starts = "py_range 0 (length residue) 100"
  have len: "length ?starts = length batches"
    unfolding bs by (rule length_py_range)
  have ne: "residue \<noteq> []"
    using k unfolding bs by (auto simp: chunks_Nil)
  have k': "k < length ?starts" using k len by simp
  have ok': "\<forall>j<k. playlist_add_items sp (st j) pid
               (py_slice residue (?starts ! j) (?starts ! j + 100)) = (Inr (), st (Suc j))"
    using ok k slice_nth [of _ residue] unfolding bs by simp
  have fail': "playlist_add_items sp (st k) pid
               (py_slice residue (?starts ! k) (?starts ! k + 100)) = (Inl e, s')"
    using fail k slice_nth [of k residue] unfolding bs by simp
  have ev: "concat (map (\<lambda>s. batch_events pid (py_slice residue s (s + 100))) (take k ?starts))
          = concat (map (batch_events pid) (take k batches))"
    unfolding bs by (rule batch_events_slices)
  have sl: "py_slice residue (?starts ! k) (?starts ! k + 100) = batches ! k"
    using k slice_nth [of k residue] unfolding bs by simp
  have "add_batches sp pid residue 100 ?starts
          \<lparr>client = st 0, trace = trace w1 @ [adding_line pid (length residue)]\<rparr>
      = (Inl e, \<lparr>client = s',
           trace = (trace w1 @ [adding_line pid (length residue)])
                    @ concat (map (batch_events pid) (take k batches))
                    @ [PlaylistAddItems pid (batches ! k)]\<rparr>)"
    using add_batches_fail [OF k' ok' fail', of "trace w1 @ [adding_line pid (length residue)]"]
    by (simp only: ev sl)
  then show ?thesis
    unfolding add_tracks_unfold [OF fetch] res [symmetric]
    using ne by (simp add: emit_world [OF st0])
qed

lemma dummy_adds:
  "j < length bs \<Longrightarrow>
   playlist_add_items DummySpotifyClient (s\<lparr>added_batches := take j bs\<rparr>) pid (bs ! j)
     = (Inr (), s\<lparr>added_batches := take (Suc j) bs\<rparr>)"
  by (simp add: dummy_methods dummy_playlist_add_items_def take_Suc_conv_app_nth)

lemma empty_playlist_fetch:
  "get_existing_track_ids DummySpotifyClient ''dummy'' \<lparr>client = dummy_init [], trace = []\<rparr>
     = Some (Inr {},
         \<lparr>client = (dummy_init [])\<lparr>playlist_items_calls := 1\<rparr>,
          trace = [PlaylistItems ''dummy'' 0 100 page_fields]\<rparr>)"
  unfolding get_existing_track_ids_def
  by (subst fetch_pages.simps)
    (simp add: call_playlist_items_def dummy_methods dummy_playlist_items_def dummy_init_def
      emit_def response_get_items_def)

text \<open>
  Claim C2. Let the residue be non-empty, and let the client accept the append
  call for each of the consecutive chunks of at most 100 identifiers of the
  residue, in order. Then \<^verbatim>\<open>add_tracks_to_playlist\<close> returns normally and has
  issued exactly one append call per chunk, in order: the chunks are non-empty,
  hold at most 100 identifiers, and their concatenation is the residue. A
  residue of 150 identifiers gives the two calls with its first 100 and its last
  50 identifiers.
\<close>

theorem batches_of_at_most_100:
  assumes fetch: "get_existing_track_ids sp pid w = Some (Inr E, w1)"
    and res: "residue = filter (\<lambda>tid. tid \<notin> E) xs"
    and bs: "batches = chunks 100 residue"
    and ne: "residue \<noteq> []"
    and st0: "client w1 = st 0"
    and ok: "\<forall>j<length batches. playlist_add_items sp (st j) pid (batches ! j) = (Inr (), st (Suc j))"
  shows "add_tracks_to_playlist sp pid xs w =
     Some (Inr (),
       \<lparr>client = st (length batches),
        trace = trace w1 @ adding_line pid (length residue)
                  # concat (map (batch_events pid) batches)
                  @ [Print ''All tracks added successfully.'']\<rparr>)
   \<and> add_calls (adding_line pid (length residue)
                  # concat (map (batch_events pid) batches)
                  @ [Print ''All tracks added successfully.'']) = batches
   \<and> concat batches = residue
   \<and> (\<forall>b\<in>set batches. b \<noteq> [] \<and> length b \<le> 100)
   \<and> length batches = (length residue + 99) div 100
   \<and> (length residue = 150 \<longrightarrow> batches = [take 100 residue, drop 100 residue])"
proof -
  have "add_calls (adding_line pid (length residue)
                  # concat (map (batch_events pid) batches)
                  @ [Print ''All tracks added successfully.'']) = batches"
    by (simp add: adding_line_def add_calls_append add_calls_batch_events)
  moreover have "concat batches = residue"
    unfolding bs by (simp add: concat_chunks)
  moreover have "\<forall>b\<in>set batches. b \<noteq> [] \<and> length b \<le> 100"
    unfolding bs using chunks_bounds by blast
  moreover have "length batches = (length residue + 99) div 100"
    unfolding bs by (rule length_chunks_100)
  moreover have "length residue = 150 \<longrightarrow> batches = [take 100 residue, drop 100 residue]"
    unfolding bs using chunks_150 by blast
  ultimately show ?thesis
    using add_tracks_ok [OF fetch res bs ne st0 ok] by simp
qed

theorem batches_of_at_most_100_witness:
  "add_tracks_to_playlist DummySpotifyClient ''dummy'' (map (\<lambda>n. ''t'' @ py_str n) [0..<150])
       \<lparr>client = dummy_init [], trace = []\<rparr> =
     Some (Inr (),
       \<lparr>client = \<lparr>playlist_responses = [], playlist_items_calls = 1,
                   added_batches = [take 100 (map (\<lambda>n. ''t'' @ py_str n) [0..<150]),
                                    drop 100 (map (\<lambda>n. ''t'' @ py_str n) [0..<150])]\<rparr>,
        trace = [PlaylistItems ''dummy'' 0 100 page_fields,
                 Print ''Adding 150 new tracks to playlist dummy...'',
                 PlaylistAddItems ''dummy'' (take 100 (map (\<lambda>n. ''t'' @ py_str n) [0..<150])),
                 Print ''Added 100 tracks.'',
                 PlaylistAddItems ''dummy'' (drop 100 (map (\<lambda>n. ''t'' @ py_str n) [0..<150])),
                 Print ''Added 50 tracks.'',
                 Print ''All tracks added successfully.'']\<rparr>)"
proof -
  let ?xs = "map (\<lambda>n. ''t'' @ py_str n) [0..<150]"
  let ?bs = "[take 100 ?xs, drop 100 ?xs]"
  let ?s0 = "(dummy_init [])\<lparr>playlist_items_calls := 1\<rparr>"
  let ?st = "\<lambda>j. ?s0\<lparr>added_batches := take j ?bs\<rparr>"
  have len: "length ?xs = 150" by simp
  have res: "?xs = filter (\<lambda>tid. tid \<notin> {}) ?xs" by simp
  have bs: "?bs = chunks 100 ?xs" using chunks_150 [OF len] by simp
  have ne: "?xs \<noteq> []" using len by (metis length_0_conv zero_neq_numeral)
  have st0: "client \<lparr>client = ?s0, trace = [PlaylistItems ''dummy'' 0 100 page_fields]\<rparr> = ?st 0"
    by (simp add: dummy_init_def)
  have ok: "\<forall>j<length ?bs. playlist_add_items DummySpotifyClient (?st j) ''dummy'' (?bs ! j)
              = (Inr (), ?st (Suc j))"
    by (intro allI impI dummy_adds)
  have e1: "py_str 150 = ''150''" "py_str 100 = ''100''" "py_str 50 = ''50''"
    by (simp_all add: py_str.simps py_digit_def)
  have l1: "length (take 100 ?xs) = 100" "length (drop 100 ?xs) = 50" by simp_all
  show ?thesis
    using batches_of_at_most_100 [OF empty_playlist_fetch res bs ne st0 ok]
    by (simp only: len) (simp add: adding_line_def batch_events_def e1 l1 dummy_init_def del: take_map drop_map map_upt_Suc upt_Suc)
qed

text \<open>
  Claim C8. When the append calls for the first \<open>k\<close> batches succeed and the
  call for the next batch raises \<open>e\<close>, \<^verbatim>\<open>add_tracks_to_playlist\<close> ends with \<open>e\<close>:
  the failing call is the last event of the run, no later batch is sent,
  nothing is printed after it, and the \<open>k\<close> earlier calls stay issued, the
  client being left in the state the failing call produced.
\<close>

theorem append_failure_aborts_run:
  assumes fetch: "get_existing_track_ids sp pid w = Some (Inr E, w1)"
    and res: "residue = filter (\<lambda>tid. tid \<notin> E) xs"
    and bs: "batches = chunks 100 residue"
    and st0: "client w1 = st 0"
    and k: "k < length batches"
    and ok: "\<forall>j<k. playlist_add_items sp (st j) pid (batches ! j) = (Inr (), st (Suc j))"
    and fail: "playlist_add_items sp (st k) pid (batches ! k) = (Inl e, s')"
  shows "add_tracks_to_playlist sp pid xs w =
     Some (Inl e,
       \<lparr>client = s',
        trace = trace w1 @ adding_line pid (length residue)
                  # concat (map (batch_events pid) (take k batches))
                  @ [PlaylistAddItems pid (batches ! k)]\<rparr>)
   \<and> add_calls (adding_line pid (length residue)
                  # concat (map (batch_events pid) (take k batches))
                  @ [PlaylistAddItems pid (batches ! k)]) = take (Suc k) batches"
proof -
  have "add_calls (adding_line pid (length residue)
                  # concat (map (batch_events pid) (take k batches))
                  @ [PlaylistAddItems pid (batches ! k)]) = take (Suc k) batches"
    using k by (simp add: adding_line_def add_calls_append add_calls_batch_events
        take_Suc_conv_app_nth)
  then show ?thesis
    using add_tracks_fail [OF fetch res bs st0 k ok fail] by simp
qed

theorem append_failure_aborts_run_witness:
  "add_tracks_to_playlist
     \<lparr>playlist_items = (\<lambda>s p off lim f. (Inr \<lparr>items = Some [], total = None\<rparr>, s)),
      playlist_add_items = (\<lambda>s p b. if s < 1 then (Inr (), Suc s)
                                     else (Inl (SpotifyException ''rate limited''), s))\<rparr>
     ''p'' (replicate 250 ''id9'') \<lparr>client = 0::nat, trace = []\<rparr> =
   Some (Inl (SpotifyException ''rate limited''),
     \<lparr>client = 1,
      trace = [PlaylistItems ''p'' 0 100 page_fields,
               Print ''Adding 250 new tracks to playlist p...'',
               PlaylistAddItems ''p'' (replicate 100 ''id9''),
               Print ''Added 100 tracks.'',
               PlaylistAddItems ''p'' (replicate 100 ''id9'')]\<rparr>)"
proof -
  let ?sp = "\<lparr>playlist_items = (\<lambda>s p off lim f. (Inr \<lparr>items = Some [], total = None\<rparr>, s)),
      playlist_add_items = (\<lambda>s p b. if s < 1 then (Inr (), Suc s)
                                     else (Inl (SpotifyException ''rate limited''), s))\<rparr>
      :: nat spotify"
  let ?xs = "replicate 250 ''id9''"
  have fetch: "get_existing_track_ids ?sp ''p'' \<lparr>client = 0, trace = []\<rparr>
      = Some (Inr {}, \<lparr>client = 0, trace = [PlaylistItems ''p'' 0 100 page_fields]\<rparr>)"
    unfolding get_existing_track_ids_def
    by (subst fetch_pages.simps)
      (simp add: call_playlist_items_def emit_def response_get_items_def)
  have res: "?xs = filter (\<lambda>tid. tid \<notin> {}) ?xs" by simp
  have bs: "chunks 100 ?xs = chunks 100 ?xs" by simp
  have ch: "chunks 100 ?xs = [replicate 100 ''id9'', replicate 100 ''id9'', replicate 50 ''id9'']"
    by (simp add: chunks_Cons chunks_Nil)
  have st0: "client \<lparr>client = 0::nat, trace = [PlaylistItems ''p'' 0 100 page_fields]\<rparr> = id 0"
    by simp
  have k: "1 < length (chunks 100 ?xs)" by (simp add: ch)
  have ok: "\<forall>j<1. playlist_add_items ?sp (id j) ''p'' (chunks 100 ?xs ! j) = (Inr (), id (Suc j))"
    by simp
  have fail: "playlist_add_items ?sp (id 1) ''p'' (chunks 100 ?xs ! 1)
      = (Inl (SpotifyException ''rate limited''), 1)"
    by simp
  have e1: "py_str 250 = ''250''" "py_str 100 = ''100''"
    by (simp_all add: py_str.simps py_digit_def)
  show ?thesis
    using append_failure_aborts_run [OF fetch res bs st0 k ok fail]
    by (simp add: ch adding_line_def batch_events_def e1)
qed


section \<open>The claims about a whole run\<close>

lemma prefix_events_since:
  "prefix (trace w1) (trace w2) \<Longrightarrow> trace w2 = trace w1 @ events_since w1 w2"
  by (auto simp: events_since_def prefix_def)

lemma add_tracks_total:
  assumes fetch: "get_existing_track_ids sp pid w = Some (Inr E, w1)"
  shows "\<exists>r w2 evs k. add_tracks_to_playlist sp pid xs w = Some (r, w2)
           \<and> trace w2 = trace w1 @ evs \<and> page_calls evs = []
           \<and> k \<le> length (chunks 100 (filter (\<lambda>tid. tid \<notin> E) xs))
           \<and> add_calls evs = take k (chunks 100 (filter (\<lambda>tid. tid \<notin> E) xs))
           \<and> (r = Inr () \<longrightarrow> k = length (chunks 100 (filter (\<lambda>tid. tid \<notin> E) xs)))
           \<and> (\<forall>e. r = Inl e \<longrightarrow> 0 < k \<and>
                 (\<exists>s s'. playlist_add_items sp s pid
                    (chunks 100 (filter (\<lambda>tid. tid \<notin> E) xs) ! (k - 1)) = (Inl e, s')))"
proof (cases "filter (\<lambda>tid. tid \<notin> E) xs = []")
  case True
  let ?p = "Print ''No new tracks to add; playlist already contains all provided songs.''"
  have "add_tracks_to_playlist sp pid xs w = Some (Inr (), emit ?p w1)"
    unfolding add_tracks_unfold [OF fetch] using True by simp
  moreover have "trace (emit ?p w1) = trace w1 @ [?p]" by (simp add: emit_def)
  moreover have "page_calls [?p] = []" by simp
  moreover have "0 \<le> length (chunks 100 (filter (\<lambda>tid. tid \<notin> E) xs))" by simp
  moreover have "add_calls [?p] = take 0 (chunks 100 (filter (\<lambda>tid. tid \<notin> E) xs))" by simp
  moreover have "(Inr () :: error + unit) = Inr () \<longrightarrow>
      0 = length (chunks 100 (filter (\<lambda>tid. tid \<notin> E) xs))"
    using True by (simp add: chunks_Nil)
  moreover have "\<forall>e. (Inr () :: error + unit) = Inl e \<longrightarrow> 0 < (0::nat) \<and>
                 (\<exists>s s'. playlist_add_items sp s pid
                    (chunks 100 (filter (\<lambda>tid. tid \<notin> E) xs) ! (0 - 1)) = (Inl e, s'))"
    by simp
  ultimately show ?thesis by blast
next
  case False
  let ?res = "filter (\<lambda>tid. tid \<notin> E) xs"
  let ?starts = "py_range 0 (length ?res) 100"
  let ?w = "emit (adding_line pid (length ?res)) w1"
  obtain r3 w3 where ab: "add_batches sp pid ?res 100 ?starts ?w = (r3, w3)"
    by (cases "add_batches sp pid ?res 100 ?starts ?w") auto
  from add_batches_any [OF ab] obtain evs k where
    ev: "trace w3 = trace ?w @ evs" "page_calls evs = []" "k \<le> length ?starts"
      "add_calls evs = map (\<lambda>s. py_slice ?res s (s + 100)) (take k ?starts)"
      "r3 = Inr () \<longrightarrow> k = length ?starts"
    and evc: "\<forall>e. r3 = Inl e \<longrightarrow> 0 < k \<and>
                  (\<exists>s s'. playlist_add_items sp s pid
                     (py_slice ?res (?starts ! (k - 1)) (?starts ! (k - 1) + 100)) = (Inl e, s'))"
    by blast
  have calls: "add_calls evs = take k (chunks 100 ?res)"
    using ev(4) by (simp add: take_map [symmetric] code_batches)
  have kle: "k \<le> length (chunks 100 ?res)"
    using ev(3) by (simp add: length_py_range)
  have tw: "trace ?w = trace w1 @ [adding_line pid (length ?res)]"
    by (simp add: emit_def)
  show ?thesis
  proof (cases r3)
    case (Inl e)
    have run: "add_tracks_to_playlist sp pid xs w = Some (Inl e, w3)"
      unfolding add_tracks_unfold [OF fetch] using False ab Inl by simp
    from evc Inl have k: "0 < k" and ex: "\<exists>s s'. playlist_add_items sp s pid
                     (py_slice ?res (?starts ! (k - 1)) (?starts ! (k - 1) + 100)) = (Inl e, s')"
      by auto
    from k kle have "k - 1 < length (chunks 100 ?res)" by simp
    from slice_nth [OF this] ex
    have ex': "\<exists>s s'. playlist_add_items sp s pid (chunks 100 ?res ! (k - 1)) = (Inl e, s')"
      by simp
    let ?evs = "adding_line pid (length ?res) # evs"
    have "trace w3 = trace w1 @ ?evs" using ev(1) tw by simp
    moreover have "page_calls ?evs = []" using ev(2) by (simp add: adding_line_def)
    moreover have "add_calls ?evs = take k (chunks 100 ?res)"
      using calls by (simp add: adding_line_def)
    moreover have "(Inl e :: error + unit) = Inr () \<longrightarrow> k = length (chunks 100 ?res)" by simp
    moreover have "\<forall>e'. (Inl e :: error + unit) = Inl e' \<longrightarrow> 0 < k \<and>
        (\<exists>s s'. playlist_add_items sp s pid (chunks 100 ?res ! (k - 1)) = (Inl e', s'))"
      using k ex' by simp
    ultimately show ?thesis using run kle by blast
  next
    case (Inr u)
    let ?done = "Print ''All tracks added successfully.''"
    have run: "add_tracks_to_playlist sp pid xs w = Some (Inr (), emit ?done w3)"
      unfolding add_tracks_unfold [OF fetch] using False ab Inr by simp
    from Inr ev(5) have keq: "k = length (chunks 100 ?res)"
      by (simp add: length_py_range)
    let ?evs = "adding_line pid (length ?res) # evs @ [?done]"
    have "trace (emit ?done w3) = trace w1 @ ?evs" using ev(1) tw by (simp add: emit_def)
    moreover have "page_calls ?evs = []"
      using ev(2) by (simp add: adding_line_def page_calls_append)
    moreover have "add_calls ?evs = take k (chunks 100 ?res)"
      using calls by (simp add: adding_line_def add_calls_append)
    moreover have "(Inr () :: error + unit) = Inr () \<longrightarrow> k = length (chunks 100 ?res)"
      using keq by simp
    moreover have "\<forall>e'. (Inr () :: error + unit) = Inl e' \<longrightarrow> 0 < k \<and>
        (\<exists>s s'. playlist_add_items sp s pid (chunks 100 ?res ! (k - 1)) = (Inl e', s'))"
      by simp
    ultimately show ?thesis using run kle by blast
  qed
qed

lemma dummy_add_never_raises:
  "playlist_add_items DummySpotifyClient s pid b \<noteq> (Inl e, s')"
  by (simp add: dummy_methods dummy_playlist_add_items_def)

text \<open>
  Claim C1. Let \<open>E\<close> be the set the snapshot fetch returns. Then the run of
  \<^verbatim>\<open>add_tracks_to_playlist\<close> on the input \<open>xs\<close> returns, and what it sends in its
  append calls, batch after batch, is an initial part of the input without the
  elements of \<open>E\<close>: all of it when the run returns normally, and the run ends
  with an exception only when an append call of the client raised it. The
  input without the elements of \<open>E\<close> is a subsequence of \<open>xs\<close> in which an
  identifier outside \<open>E\<close> occurs as often as in \<open>xs\<close> and an identifier of \<open>E\<close>
  never. With the playlist \<^verbatim>\<open>{"id1"}\<close> and the input
  \<^verbatim>\<open>["id1","id2","id2","id3","id4","id5"]\<close> of the repository's test, exactly
  one append call is issued, with \<^verbatim>\<open>["id2","id2","id3","id4","id5"]\<close>.
\<close>

theorem residue_is_input_minus_existing:
  assumes fetch: "get_existing_track_ids sp pid w = Some (Inr E, w1)"
  shows "(\<exists>r w2. add_tracks_to_playlist sp pid xs w = Some (r, w2)
       \<and> prefix (concat (add_calls (events_since w1 w2))) (filter (\<lambda>x. x \<notin> E) xs)
       \<and> (r = Inr () \<longrightarrow>
            concat (add_calls (events_since w1 w2)) = filter (\<lambda>x. x \<notin> E) xs)
       \<and> (\<forall>e. r = Inl e \<longrightarrow> (\<exists>s b s'. playlist_add_items sp s pid b = (Inl e, s'))))
   \<and> subseq (filter (\<lambda>x. x \<notin> E) xs) xs
   \<and> (\<forall>x. count_list (filter (\<lambda>x. x \<notin> E) xs) x = (if x \<in> E then 0 else count_list xs x))
   \<and> add_tracks_to_playlist DummySpotifyClient ''dummy'' test_track_ids
         \<lparr>client = dummy_init existing_responses, trace = []\<rparr>
       = Some (Inr (),
           \<lparr>client = \<lparr>playlist_responses = existing_responses, playlist_items_calls = 1,
                       added_batches = [[''id2'', ''id2'', ''id3'', ''id4'', ''id5'']]\<rparr>,
            trace = [PlaylistItems ''dummy'' 0 100 page_fields,
                     Print ''Adding 5 new tracks to playlist dummy...'',
                     PlaylistAddItems ''dummy'' [''id2'', ''id2'', ''id3'', ''id4'', ''id5''],
                     Print ''Added 5 tracks.'',
                     Print ''All tracks added successfully.'']\<rparr>)"
proof -
  let ?res = "filter (\<lambda>x. x \<notin> E) xs"
  from add_tracks_total [OF fetch, of xs] obtain r w2 evs k where
    run: "add_tracks_to_playlist sp pid xs w = Some (r, w2)"
    and ev: "trace w2 = trace w1 @ evs" "k \<le> length (chunks 100 ?res)"
      "add_calls evs = take k (chunks 100 ?res)"
      "r = Inr () \<longrightarrow> k = length (chunks 100 ?res)"
    and cause: "\<forall>e. r = Inl e \<longrightarrow> 0 < k \<and>
                 (\<exists>s s'. playlist_add_items sp s pid (chunks 100 ?res ! (k - 1)) = (Inl e, s'))"
    by blast
  have since: "events_since w1 w2 = evs"
    using ev(1) by (rule events_since_append)
  have "prefix (concat (take k (chunks 100 ?res))) (concat (chunks 100 ?res))"
    by (rule prefix_concat_take)
  then have p: "prefix (concat (add_calls (events_since w1 w2))) ?res"
    by (simp add: since ev(3) concat_chunks)
  have a: "r = Inr () \<longrightarrow> concat (add_calls (events_since w1 w2)) = ?res"
    using ev(4) by (simp add: since ev(3) concat_chunks)
  have f: "\<forall>e. r = Inl e \<longrightarrow> (\<exists>s b s'. playlist_add_items sp s pid b = (Inl e, s'))"
    using cause by blast
  have first: "\<exists>r w2. add_tracks_to_playlist sp pid xs w = Some (r, w2)
       \<and> prefix (concat (add_calls (events_since w1 w2))) ?res
       \<and> (r = Inr () \<longrightarrow> concat (add_calls (events_since w1 w2)) = ?res)
       \<and> (\<forall>e. r = Inl e \<longrightarrow> (\<exists>s b s'. playlist_add_items sp s pid b = (Inl e, s')))"
    using run p a f by blast
  have s: "subseq ?res xs" by simp
  have c: "\<forall>x. count_list ?res x = (if x \<in> E then 0 else count_list xs x)"
    by (simp add: count_list_filter)
  show ?thesis
    using first s c existing_test_run by (intro conjI)
qed

theorem residue_is_input_minus_existing_witness:
  "map_option (\<lambda>(r, w2). (r, concat (add_calls (events_since
       \<lparr>client = (dummy_init existing_responses)\<lparr>playlist_items_calls := 1\<rparr>,
        trace = [PlaylistItems ''dummy'' 0 100 page_fields]\<rparr> w2))))
     (add_tracks_to_playlist DummySpotifyClient ''dummy'' test_track_ids
        \<lparr>client = dummy_init existing_responses, trace = []\<rparr>)
   = Some (Inr (), [''id2'', ''id2'', ''id3'', ''id4'', ''id5''])"
proof -
  let ?w1 = "\<lparr>client = (dummy_init existing_responses)\<lparr>playlist_items_calls := 1\<rparr>,
        trace = [PlaylistItems ''dummy'' 0 100 page_fields]\<rparr>"
  from residue_is_input_minus_existing [OF existing_test_fetch, of test_track_ids, THEN conjunct1]
  obtain r w2 where
    run: "add_tracks_to_playlist DummySpotifyClient ''dummy'' test_track_ids
        \<lparr>client = dummy_init existing_responses, trace = []\<rparr> = Some (r, w2)"
    and full: "r = Inr () \<longrightarrow> concat (add_calls (events_since ?w1 w2))
        = filter (\<lambda>x. x \<notin> {''id1''}) test_track_ids"
    and cause: "\<forall>e. r = Inl e \<longrightarrow>
        (\<exists>s b s'. playlist_add_items DummySpotifyClient s ''dummy'' b = (Inl e, s'))"
    by blast
  have r: "r = Inr ()"
    using cause dummy_add_never_raises by (cases r) auto
  have flt: "filter (\<lambda>x. x \<notin> {''id1''}) test_track_ids = [''id2'', ''id2'', ''id3'', ''id4'', ''id5'']"
    by (simp add: test_track_ids_def)
  from full r have "concat (add_calls (events_since ?w1 w2))
      = filter (\<lambda>x. x \<notin> {''id1''}) test_track_ids"
    by (rule mp)
  also have "\<dots> = [''id2'', ''id2'', ''id3'', ''id4'', ''id5'']"
    by (rule flt)
  finally have c: "concat (add_calls (events_since ?w1 w2))
      = [''id2'', ''id2'', ''id3'', ''id4'', ''id5'']" .
  show ?thesis
    using c r by (simp add: run)
qed

text \<open>
  Claim C5. Every run of \<^verbatim>\<open>add_tracks_to_playlist\<close> starts with the one fetch of
  the snapshot: while the fetch does not return, the run does not either, and
  when the fetch raises, the run ends there with that exception. Up to the return
  of the fetch the run issues page requests only, at least one, and after it
  none: the set \<open>E\<close> it returned is never refreshed. The batches sent are the
  first \<open>k\<close> chunks of the input filtered against \<open>E\<close> alone: all chunks when
  the run returns normally, so that an identifier outside \<open>E\<close> is sent as often
  as the input has it, whatever earlier batches of the run appended; and when
  the run ends with an exception, the append call for chunk \<open>k\<close> raised it.
\<close>

theorem snapshot_taken_once_before_appends:
  "(case get_existing_track_ids sp pid w of
      None \<Rightarrow> add_tracks_to_playlist sp pid xs w = None
    | Some (Inl e, w1) \<Rightarrow>
        add_tracks_to_playlist sp pid xs w = Some (Inl e, w1)
        \<and> prefix (trace w) (trace w1) \<and> events_since w w1 \<noteq> []
        \<and> page_calls (events_since w w1) = events_since w w1
    | Some (Inr E, w1) \<Rightarrow>
        prefix (trace w) (trace w1) \<and> events_since w w1 \<noteq> []
        \<and> page_calls (events_since w w1) = events_since w w1
        \<and> (\<exists>r w2 k. add_tracks_to_playlist sp pid xs w = Some (r, w2)
             \<and> prefix (trace w1) (trace w2)
             \<and> page_calls (events_since w1 w2) = []
             \<and> k \<le> length (chunks 100 (filter (\<lambda>x. x \<notin> E) xs))
             \<and> add_calls (events_since w1 w2) = take k (chunks 100 (filter (\<lambda>x. x \<notin> E) xs))
             \<and> (r = Inr () \<longrightarrow>
                   k = length (chunks 100 (filter (\<lambda>x. x \<notin> E) xs))
                   \<and> (\<forall>x. x \<notin> E \<longrightarrow>
                         count_list (concat (add_calls (events_since w1 w2))) x = count_list xs x))
             \<and> (\<forall>e. r = Inl e \<longrightarrow> 0 < k \<and>
                   (\<exists>s s'. playlist_add_items sp s pid
                      (chunks 100 (filter (\<lambda>x. x \<notin> E) xs) ! (k - 1)) = (Inl e, s')))))"
proof (cases "get_existing_track_ids sp pid w")
  case None
  then show ?thesis by (simp add: add_tracks_to_playlist_def)
next
  case (Some y)
  obtain res w1 where y: "y = (res, w1)" by (cases y) auto
  from fetch_trace [OF Some [unfolded y]] obtain evs1 where
    e1: "trace w1 = trace w @ evs1" "page_calls evs1 = evs1" "evs1 \<noteq> []"
    by blast
  have s1: "events_since w w1 = evs1" using e1(1) by (rule events_since_append)
  have fetched: "prefix (trace w) (trace w1) \<and> events_since w w1 \<noteq> []
        \<and> page_calls (events_since w w1) = events_since w w1"
    using e1 by (simp add: s1)
  show ?thesis
  proof (cases res)
    case (Inl e)
    have "add_tracks_to_playlist sp pid xs w = Some (Inl e, w1)"
      using Some y Inl by (simp add: add_tracks_to_playlist_def)
    with fetched show ?thesis
      using Some y Inl by simp
  next
    case (Inr E)
    let ?res = "filter (\<lambda>x. x \<notin> E) xs"
    have fetch: "get_existing_track_ids sp pid w = Some (Inr E, w1)"
      using Some y Inr by simp
    from add_tracks_total [OF fetch, of xs] obtain r w2 evs k where
      run: "add_tracks_to_playlist sp pid xs w = Some (r, w2)"
      and ev: "trace w2 = trace w1 @ evs" "page_calls evs = []" "k \<le> length (chunks 100 ?res)"
        "add_calls evs = take k (chunks 100 ?res)"
        "r = Inr () \<longrightarrow> k = length (chunks 100 ?res)"
      and cause: "\<forall>e. r = Inl e \<longrightarrow> 0 < k \<and>
                 (\<exists>s s'. playlist_add_items sp s pid (chunks 100 ?res ! (k - 1)) = (Inl e, s'))"
      by blast
    have s2: "events_since w1 w2 = evs" using ev(1) by (rule events_since_append)
    have all: "r = Inr () \<longrightarrow> k = length (chunks 100 ?res)
                   \<and> (\<forall>x. x \<notin> E \<longrightarrow>
                         count_list (concat (add_calls (events_since w1 w2))) x = count_list xs x)"
    proof
      assume "r = Inr ()"
      with ev(5) have k: "k = length (chunks 100 ?res)" by simp
      then have "concat (add_calls (events_since w1 w2)) = ?res"
        by (simp add: s2 ev(4) concat_chunks)
      then show "k = length (chunks 100 ?res)
                   \<and> (\<forall>x. x \<notin> E \<longrightarrow>
                         count_list (concat (add_calls (events_since w1 w2))) x = count_list xs x)"
        using k by (simp add: count_list_filter)
    qed
    have "prefix (trace w1) (trace w2)" using ev(1) by simp
    moreover have "page_calls (events_since w1 w2) = []" using ev(2) by (simp add: s2)
    moreover have "add_calls (events_since w1 w2) = take k (chunks 100 ?res)"
      using ev(4) by (simp add: s2)
    ultimately have "\<exists>r w2 k. add_tracks_to_playlist sp pid xs w = Some (r, w2)
             \<and> prefix (trace w1) (trace w2)
             \<and> page_calls (events_since w1 w2) = []
             \<and> k \<le> length (chunks 100 ?res)
             \<and> add_calls (events_since w1 w2) = take k (chunks 100 ?res)
             \<and> (r = Inr () \<longrightarrow>
                   k = length (chunks 100 ?res)
                   \<and> (\<forall>x. x \<notin> E \<longrightarrow>
                         count_list (concat (add_calls (events_since w1 w2))) x = count_list xs x))
             \<and> (\<forall>e. r = Inl e \<longrightarrow> 0 < k \<and>
                   (\<exists>s s'. playlist_add_items sp s pid (chunks 100 ?res ! (k - 1)) = (Inl e, s')))"
      using run ev(3) all cause by blast
    with fetched show ?thesis
      using fetch by simp
  qed
qed

theorem snapshot_taken_once_before_appends_witness:
  "map_option (\<lambda>(r, w2). (r, add_calls (trace w2), page_calls (trace w2)))
     (add_tracks_to_playlist DummySpotifyClient ''dummy'' (replicate 101 ''id2'')
        \<lparr>client = dummy_init [], trace = []\<rparr>)
   = Some (Inr (), [replicate 100 ''id2'', [''id2'']], [PlaylistItems ''dummy'' 0 100 page_fields])"
proof -
  let ?xs = "replicate 101 ''id2''"
  let ?w0 = "\<lparr>client = dummy_init [], trace = []\<rparr>"
  let ?w1 = "\<lparr>client = (dummy_init [])\<lparr>playlist_items_calls := 1\<rparr>,
             trace = [PlaylistItems ''dummy'' 0 100 page_fields]\<rparr>"
  have res: "filter (\<lambda>x. x \<notin> {}) ?xs = ?xs" by simp
  have bs: "chunks 100 ?xs = [replicate 100 ''id2'', [''id2'']]"
    by (simp add: chunks_Cons chunks_Nil)
  have "\<exists>r w2 k. add_tracks_to_playlist DummySpotifyClient ''dummy'' ?xs ?w0 = Some (r, w2)
         \<and> prefix (trace ?w1) (trace w2)
         \<and> page_calls (events_since ?w1 w2) = []
         \<and> add_calls (events_since ?w1 w2) = take k (chunks 100 ?xs)
         \<and> (r = Inr () \<longrightarrow> k = length (chunks 100 ?xs))
         \<and> (\<forall>e. r = Inl e \<longrightarrow>
               (\<exists>s s'. playlist_add_items DummySpotifyClient s ''dummy''
                  (chunks 100 ?xs ! (k - 1)) = (Inl e, s')))"
    using snapshot_taken_once_before_appends
      [where sp = DummySpotifyClient and pid = "''dummy''" and w = ?w0 and xs = ?xs]
    unfolding empty_playlist_fetch option.case prod.case sum.case res
    by blast
  then obtain r w2 k where
    run: "add_tracks_to_playlist DummySpotifyClient ''dummy'' ?xs ?w0 = Some (r, w2)"
    and pre: "prefix (trace ?w1) (trace w2)"
    and pc: "page_calls (events_since ?w1 w2) = []"
    and ac: "add_calls (events_since ?w1 w2) = take k (chunks 100 ?xs)"
    and all: "r = Inr () \<longrightarrow> k = length (chunks 100 ?xs)"
    and cause: "\<forall>e. r = Inl e \<longrightarrow>
               (\<exists>s s'. playlist_add_items DummySpotifyClient s ''dummy''
                  (chunks 100 ?xs ! (k - 1)) = (Inl e, s'))"
    by blast
  have r: "r = Inr ()"
    using cause dummy_add_never_raises by (cases r) auto
  with all have k: "k = length (chunks 100 ?xs)" by simp
  have tr: "trace w2 = trace ?w1 @ events_since ?w1 w2"
    using pre by (rule prefix_events_since)
  have ac': "add_calls (events_since ?w1 w2) = [replicate 100 ''id2'', [''id2'']]"
    using ac k bs by simp
  have t1: "add_calls (trace w2) = add_calls (trace ?w1) @ add_calls (events_since ?w1 w2)"
    using arg_cong [OF tr, of add_calls] by (simp only: add_calls_append)
  have t2: "page_calls (trace w2) = page_calls (trace ?w1) @ page_calls (events_since ?w1 w2)"
    using arg_cong [OF tr, of page_calls] by (simp only: page_calls_append)
  have "add_calls (trace w2) = [replicate 100 ''id2'', [''id2'']]"
    using t1 ac' by simp
  moreover have "page_calls (trace w2) = [PlaylistItems ''dummy'' 0 100 page_fields]"
    using t2 pc by simp
  ultimately show ?thesis
    using r by (simp add: run)
qed

text \<open>
  Claim C7. When every identifier of the input is in the set the snapshot fetch
  returns, \<^verbatim>\<open>add_tracks_to_playlist\<close> prints that there is nothing new and returns
  normally, in the world the fetch left: no append call is issued.
\<close>

theorem nothing_new_means_no_append:
  assumes fetch: "get_existing_track_ids sp pid w = Some (Inr E, w1)"
    and sub: "set xs \<subseteq> E"
  shows "add_tracks_to_playlist sp pid xs w =
       Some (Inr (),
         emit (Print ''No new tracks to add; playlist already contains all provided songs.'') w1)
   \<and> add_calls (trace (emit
         (Print ''No new tracks to add; playlist already contains all provided songs.'') w1))
       = add_calls (trace w)"
proof -
  have "filter (\<lambda>tid. tid \<notin> E) xs = []"
    using sub by (auto simp: filter_empty_conv)
  then have run: "add_tracks_to_playlist sp pid xs w =
       Some (Inr (),
         emit (Print ''No new tracks to add; playlist already contains all provided songs.'') w1)"
    unfolding add_tracks_unfold [OF fetch] by simp
  from fetch_trace [OF fetch] obtain evs where
    "trace w1 = trace w @ evs" "add_calls evs = []"
    by blast
  then have "add_calls (trace (emit
         (Print ''No new tracks to add; playlist already contains all provided songs.'') w1))
       = add_calls (trace w)"
    by (simp add: emit_def add_calls_append)
  with run show ?thesis by simp
qed

theorem nothing_new_means_no_append_witness:
  "set [''id1'', ''id1''] \<subseteq> {''id1''} \<and>
   add_tracks_to_playlist DummySpotifyClient ''dummy'' [''id1'', ''id1'']
       \<lparr>client = dummy_init existing_responses, trace = []\<rparr> =
     Some (Inr (),
       \<lparr>client = (dummy_init existing_responses)\<lparr>playlist_items_calls := 1\<rparr>,
        trace = [PlaylistItems ''dummy'' 0 100 page_fields,
                 Print ''No new tracks to add; playlist already contains all provided songs.'']\<rparr>)"
proof -
  have sub: "set [''id1'', ''id1''] \<subseteq> {''id1''}" by simp
  show ?thesis
    using nothing_new_means_no_append [OF existing_test_fetch sub]
    by (simp add: emit_def)
qed

end
